theory Spec2Isabelle
  imports Main "HOL-Library.Sublist"
begin

section \<open>Data model (prisma schema, migration 20251201160419_init)\<close>

text \<open>
  Times are JavaScript \<open>Date\<close> values, read as milliseconds since the epoch
  (\<open>getTime()\<close>). Identifiers are the TEXT primary keys of the schema.
\<close>

type_synonym time = int

record user =
  u_id :: string
  u_email :: string
  u_name :: string

record userSettings =
  us_userId :: string
  emailNotificationsEnabled :: bool
  pushNotificationsEnabled :: bool
  inAppNotificationsEnabled :: bool

record meeting =
  m_id :: string
  m_title :: string
  startTime :: time
  endTime :: time
  isCancelled :: bool
  reminderMinutesBefore :: "int list"
  createdByUserId :: string

record meetingParticipant =
  p_id :: string
  p_email :: string
  p_meetingId :: string
  p_userId :: "string option"

record meetingReminder =
  r_id :: string
  minutesBefore :: int
  scheduledFor :: time
  sentAt :: "time option"
  emailSent :: bool
  pushSent :: bool
  inAppCreated :: bool
  r_createdAt :: time
  r_meetingId :: string

datatype notificationType =
  MEETING_CREATED | MEETING_UPDATED | MEETING_CANCELLED
  | MEETING_INVITATION | MEETING_REMINDER | PARTICIPANT_RESPONDED

record notification =
  n_id :: string
  n_type :: notificationType
  n_title :: string
  n_message :: string
  isRead :: bool
  n_createdAt :: time
  n_userId :: string
  relatedMeetingId :: "string option"

section \<open>The outside world: store, SMTP transport, push provider, console\<close>

text \<open>
  Every awaited call to a collaborator may reject and takes some time. Each collaborator
  has its own queue of outcomes, consumed one per call; an exhausted queue means the call
  succeeds at once. Constraint violations of the store are among the rejections a queue
  may inject. The channel senders of \<open>email.service.ts\<close> and \<open>push.service.ts\<close> are
  modelled at their interface: the invocation is recorded in the trace with its
  outcome (an unconfigured transport is an outcome that does not throw).
\<close>

record outcome =
  throws :: bool
  elapsed :: nat

datatype call =
  SendMeetingReminder string string int
  | SendMeetingNotification string string string
  | SendToUser string string string

datatype event =
  Invoke call bool
  | ConsoleError string
  | ConsoleLog string

record state =
  tbl_user :: "user list"
  tbl_userSettings :: "userSettings list"
  tbl_meeting :: "meeting list"
  tbl_meetingParticipant :: "meetingParticipant list"
  tbl_meetingReminder :: "meetingReminder list"
  tbl_notification :: "notification list"
  idSupply :: nat
  wallclock :: time
  dbOutcomes :: "outcome list"
  smtpOutcomes :: "outcome list"
  pushOutcomes :: "outcome list"
  trace :: "event list"

datatype 'a result = Ok 'a | Throw string

definition nextOutcome :: "outcome list \<Rightarrow> outcome \<times> outcome list" where
  "nextOutcome os = (case os of [] \<Rightarrow> (\<lparr>throws = False, elapsed = 0\<rparr>, []) | x # xs \<Rightarrow> (x, xs))"

definition dbCall :: "state \<Rightarrow> bool \<times> state" where
  "dbCall s = (case nextOutcome (dbOutcomes s) of (oc, rest) \<Rightarrow>
     (throws oc, s\<lparr>dbOutcomes := rest, wallclock := wallclock s + int (elapsed oc)\<rparr>))"

definition smtpCall :: "state \<Rightarrow> bool \<times> state" where
  "smtpCall s = (case nextOutcome (smtpOutcomes s) of (oc, rest) \<Rightarrow>
     (throws oc, s\<lparr>smtpOutcomes := rest, wallclock := wallclock s + int (elapsed oc)\<rparr>))"

definition pushCall :: "state \<Rightarrow> bool \<times> state" where
  "pushCall s = (case nextOutcome (pushOutcomes s) of (oc, rest) \<Rightarrow>
     (throws oc, s\<lparr>pushOutcomes := rest, wallclock := wallclock s + int (elapsed oc)\<rparr>))"

definition emit :: "event \<Rightarrow> state \<Rightarrow> state" where
  "emit e s = s\<lparr>trace := trace s @ [e]\<rparr>"

text \<open>Decimal rendering of numbers, as template literals do.\<close>

fun show_nat :: "nat \<Rightarrow> string" where
  "show_nat n = (if n < 10 then [char_of (48 + n)]
     else show_nat (n div 10) @ [char_of (48 + n mod 10)])"

declare show_nat.simps [simp del]

definition show_int :: "int \<Rightarrow> string" where
  "show_int i = (if i < 0 then CHR ''-'' # show_nat (nat (- i)) else show_nat (nat i))"

text \<open>Row identifiers are generated by the store (column default); a counter stands for it.\<close>

definition freshId :: "state \<Rightarrow> string" where
  "freshId s = ''gen-'' @ show_nat (idSupply s)"

section \<open>Channel senders\<close>

text \<open>\<open>emailService.sendMeetingReminder\<close>, \<open>emailService.sendMeetingNotification\<close>,
  \<open>pushService.sendToUser\<close>.\<close>

definition sendMeetingReminder :: "string \<Rightarrow> string \<Rightarrow> int \<Rightarrow> state \<Rightarrow> unit result \<times> state" where
  "sendMeetingReminder to title mins s = (case smtpCall s of (t, s1) \<Rightarrow>
     (if t then Throw ''sendMail'' else Ok (),
      emit (Invoke (SendMeetingReminder to title mins) t) s1))"

definition sendMeetingNotification :: "string \<Rightarrow> string \<Rightarrow> string \<Rightarrow> state \<Rightarrow> unit result \<times> state" where
  "sendMeetingNotification to title message s = (case smtpCall s of (t, s1) \<Rightarrow>
     (if t then Throw ''sendMail'' else Ok (),
      emit (Invoke (SendMeetingNotification to title message) t) s1))"

definition sendToUser :: "string \<Rightarrow> string \<Rightarrow> string \<Rightarrow> state \<Rightarrow> unit result \<times> state" where
  "sendToUser userId title body s = (case pushCall s of (t, s1) \<Rightarrow>
     (if t then Throw ''sendToUser'' else Ok (),
      emit (Invoke (SendToUser userId title body) t) s1))"

section \<open>NotificationService (notification.service.ts)\<close>

definition findSettings :: "string \<Rightarrow> state \<Rightarrow> userSettings option" where
  "findSettings userId s = find (\<lambda>x. us_userId x = userId) (tbl_userSettings s)"

definition findUser :: "string \<Rightarrow> state \<Rightarrow> user option" where
  "findUser userId s = find (\<lambda>u. u_id u = userId) (tbl_user s)"

definition findMeeting :: "string \<Rightarrow> state \<Rightarrow> meeting option" where
  "findMeeting meetingId s = find (\<lambda>m. m_id m = meetingId) (tbl_meeting s)"

text \<open>\<open>!settings || settings.flag\<close>\<close>

definition enabledOrAbsent :: "(userSettings \<Rightarrow> bool) \<Rightarrow> userSettings option \<Rightarrow> bool" where
  "enabledOrAbsent flag settings = (case settings of None \<Rightarrow> True | Some x \<Rightarrow> flag x)"

text \<open>A string used as a condition: null, undefined and the empty string are falsy.\<close>

definition truthy :: "string option \<Rightarrow> bool" where
  "truthy x = (case x of None \<Rightarrow> False | Some v \<Rightarrow> v \<noteq> [])"

text \<open>\<open>NotificationService.create\<close> (lines 7-43).\<close>

definition create ::
  "string \<Rightarrow> notificationType \<Rightarrow> string \<Rightarrow> string \<Rightarrow> string option \<Rightarrow> state
     \<Rightarrow> notification result \<times> state" where
  "create userId type title message relMeetingId s =
     (case dbCall s of (t1, s1) \<Rightarrow>
        if t1 then (Throw ''userSettings.findUnique'', s1)
        else if enabledOrAbsent inAppNotificationsEnabled (findSettings userId s1) then
          (case dbCall s1 of (t2, s2) \<Rightarrow>
             if t2 then (Throw ''notification.create'', s2)
             else
               (let row = \<lparr>n_id = freshId s2, n_type = type, n_title = title,
                           n_message = message, isRead = False, n_createdAt = wallclock s2,
                           n_userId = userId, relatedMeetingId = relMeetingId\<rparr>
                in (Ok row, s2\<lparr>tbl_notification := tbl_notification s2 @ [row],
                                idSupply := Suc (idSupply s2)\<rparr>)))
        else
          (Ok \<lparr>n_id = [], n_type = type, n_title = title, n_message = message,
               isRead = True, n_createdAt = wallclock s1, n_userId = userId,
               relatedMeetingId = (if truthy relMeetingId then relMeetingId else None)\<rparr>, s1))"

text \<open>\<open>NotificationService.sendExternalNotifications\<close> (lines 208-265). A failure of
  either sender is caught and logged.\<close>

definition sendExternalNotifications ::
  "string \<Rightarrow> string \<Rightarrow> string \<Rightarrow> string option \<Rightarrow> state \<Rightarrow> unit result \<times> state" where
  "sendExternalNotifications userId title message meetingId s =
     (case dbCall s of (t1, s1) \<Rightarrow>
        if t1 then (Throw ''user.findUnique'', s1)
        else (case findUser userId s1 of
          None \<Rightarrow> (Ok (), s1)
        | Some usr \<Rightarrow>
            (let settings = findSettings userId s1 in
             case (if truthy meetingId then dbCall s1 else (False, s1)) of (t2, s2) \<Rightarrow>
               if t2 then (Throw ''meeting.findUnique'', s2)
               else
                 (let s3 = (if enabledOrAbsent emailNotificationsEnabled settings then
                              (case sendMeetingNotification (u_email usr) title message s2 of
                                 (Throw e, s') \<Rightarrow> emit (ConsoleError ''Failed to send email notification:'') s'
                               | (Ok _, s') \<Rightarrow> s')
                            else s2);
                      s4 = (if enabledOrAbsent pushNotificationsEnabled settings then
                              (case sendToUser userId title message s3 of
                                 (Throw e, s') \<Rightarrow> emit (ConsoleError ''Failed to send push notification:'') s'
                               | (Ok _, s') \<Rightarrow> s')
                            else s3)
                  in (Ok (), s4)))))"

text \<open>The lead time in words (lines 165-167 and reminderJob.ts lines 111-113).\<close>

definition timeText :: "int \<Rightarrow> string" where
  "timeText mins = (if mins \<ge> 60 then show_int (mins div 60) @ '' hour(s)''
                    else show_int mins @ '' minutes'')"

definition reminderMessage :: "string \<Rightarrow> int \<Rightarrow> string" where
  "reminderMessage meetingTitle mins =
     [CHR 0x22] @ meetingTitle @ [CHR 0x22] @ '' starts in '' @ timeText mins"

text \<open>\<open>NotificationService.createMeetingReminder\<close> (lines 159-183).\<close>

definition createMeetingReminder ::
  "string \<Rightarrow> string \<Rightarrow> string \<Rightarrow> int \<Rightarrow> state \<Rightarrow> unit result \<times> state" where
  "createMeetingReminder userId meetingId meetingTitle mins s =
     (case create userId MEETING_REMINDER ''Meeting Reminder''
             (reminderMessage meetingTitle mins) (Some meetingId) s of
        (Throw e, s1) \<Rightarrow> (Throw e, s1)
      | (Ok _, s1) \<Rightarrow>
          sendExternalNotifications userId ''Meeting Reminder''
            (reminderMessage meetingTitle mins) (Some meetingId) s1)"

text \<open>\<open>NotificationService.createMeetingCancellation\<close> (lines 137-157).\<close>

definition cancellationMessage :: "string \<Rightarrow> string \<Rightarrow> string" where
  "cancellationMessage cancellerName meetingTitle =
     cancellerName @ '' cancelled the meeting '' @ [CHR 0x22] @ meetingTitle @ [CHR 0x22]"

definition createMeetingCancellation ::
  "string \<Rightarrow> string \<Rightarrow> string \<Rightarrow> string \<Rightarrow> state \<Rightarrow> unit result \<times> state" where
  "createMeetingCancellation userId meetingId meetingTitle cancellerName s =
     (case create userId MEETING_CANCELLED ''Meeting Cancelled''
             (cancellationMessage cancellerName meetingTitle) (Some meetingId) s of
        (Throw e, s1) \<Rightarrow> (Throw e, s1)
      | (Ok _, s1) \<Rightarrow>
          sendExternalNotifications userId ''Meeting Cancelled''
            (cancellationMessage cancellerName meetingTitle) (Some meetingId) s1)"

section \<open>Reminder job (jobs/reminderJob.ts)\<close>

subsection \<open>Selection (lines 33-59)\<close>

text \<open>The query also loads the meeting's owner (\<open>createdBy\<close>, never null by its foreign
  key); it only feeds the organizer name of the email payload, and the trace records an
  email by recipient, meeting title and lead time.\<close>

definition owningMeeting :: "state \<Rightarrow> meetingReminder \<Rightarrow> meeting option" where
  "owningMeeting s r = findMeeting (r_meetingId r) s"

definition isDue :: "time \<Rightarrow> state \<Rightarrow> meetingReminder \<Rightarrow> bool" where
  "isDue now s r =
     (scheduledFor r \<le> now + 60 * 1000 \<and> sentAt r = None \<and>
      (case owningMeeting s r of None \<Rightarrow> False
       | Some m \<Rightarrow> isCancelled m = False \<and> startTime m > now))"

record reminderWithMeeting =
  lr_reminder :: meetingReminder
  lr_meeting :: meeting
  lr_participants :: "(meetingParticipant \<times> user option) list"

definition includeUser :: "state \<Rightarrow> meetingParticipant \<Rightarrow> meetingParticipant \<times> user option" where
  "includeUser s p =
     (p, case p_userId p of None \<Rightarrow> None | Some uid \<Rightarrow> findUser uid s)"

definition includeMeeting :: "state \<Rightarrow> meetingReminder \<Rightarrow> reminderWithMeeting option" where
  "includeMeeting s r = (case owningMeeting s r of
       None \<Rightarrow> None
     | Some m \<Rightarrow> Some \<lparr>lr_reminder = r, lr_meeting = m,
         lr_participants = map (includeUser s)
           (filter (\<lambda>p. p_meetingId p = m_id m) (tbl_meetingParticipant s))\<rparr>)"

definition findDueReminders :: "time \<Rightarrow> state \<Rightarrow> reminderWithMeeting list" where
  "findDueReminders now s =
     List.map_filter (includeMeeting s) (take 100 (filter (isDue now s) (tbl_meetingReminder s)))"

subsection \<open>Dispatch (lines 61-141)\<close>

text \<open>One iteration of the inner loop over \<open>meeting.participants\<close> (lines 66-125).\<close>

definition processParticipant ::
  "reminderWithMeeting \<Rightarrow> meetingParticipant \<times> user option \<Rightarrow> state \<Rightarrow> unit result \<times> state" where
  "processParticipant lr pu s =
     (if \<not> truthy (p_userId (fst pu)) then (Ok (), s)
      else case snd pu of
        None \<Rightarrow> (Ok (), s)
      | Some usr \<Rightarrow>
          (case dbCall s of (t1, s1) \<Rightarrow>
             if t1 then (Throw ''userSettings.findUnique'', s1)
             else
               (let settings = findSettings (u_id usr) s1;
                    mins = minutesBefore (lr_reminder lr);
                    mtg = lr_meeting lr
                in case (if enabledOrAbsent inAppNotificationsEnabled settings
                         then createMeetingReminder (u_id usr) (m_id mtg) (m_title mtg) mins s1
                         else (Ok (), s1)) of
                     (Throw e, s2) \<Rightarrow> (Throw e, s2)
                   | (Ok _, s2) \<Rightarrow>
                       (let s3 = (if enabledOrAbsent emailNotificationsEnabled settings then
                                    (case sendMeetingReminder (u_email usr) (m_title mtg) mins s2 of
                                       (Throw e, s') \<Rightarrow>
                                         emit (ConsoleError (''Failed to send reminder email to '' @ u_email usr)) s'
                                     | (Ok _, s') \<Rightarrow> s')
                                  else s2);
                            s4 = (if enabledOrAbsent pushNotificationsEnabled settings then
                                    (case sendToUser (u_id usr) ''Meeting Reminder''
                                            (reminderMessage (m_title mtg) mins) s3 of
                                       (Throw e, s') \<Rightarrow>
                                         emit (ConsoleError (''Failed to send push notification to '' @ u_id usr)) s'
                                     | (Ok _, s') \<Rightarrow> s')
                                  else s3)
                        in (Ok (), s4)))))"

fun processParticipants ::
  "reminderWithMeeting \<Rightarrow> (meetingParticipant \<times> user option) list \<Rightarrow> state \<Rightarrow> unit result \<times> state" where
  "processParticipants lr [] s = (Ok (), s)"
| "processParticipants lr (pu # rest) s =
     (case processParticipant lr pu s of
        (Throw e, s1) \<Rightarrow> (Throw e, s1)
      | (Ok _, s1) \<Rightarrow> processParticipants lr rest s1)"

text \<open>\<open>prisma.meetingReminder.update\<close> by primary key (lines 128-136); a missing row rejects.\<close>

definition markSent :: "time \<Rightarrow> meetingReminder \<Rightarrow> meetingReminder" where
  "markSent t r = r\<lparr>sentAt := Some t, emailSent := True, pushSent := True, inAppCreated := True\<rparr>"

definition updateReminderSent :: "string \<Rightarrow> state \<Rightarrow> unit result \<times> state" where
  "updateReminderSent rid s =
     (let t = wallclock s in
      case dbCall s of (thr, s1) \<Rightarrow>
        if thr then (Throw ''meetingReminder.update'', s1)
        else if \<not> list_ex (\<lambda>r. r_id r = rid) (tbl_meetingReminder s1)
          then (Throw ''Record to update not found'', s1)
        else (Ok (), s1\<lparr>tbl_meetingReminder :=
                 map (\<lambda>r. if r_id r = rid then markSent t r else r) (tbl_meetingReminder s1)\<rparr>))"

text \<open>The body of the outer loop with its try/catch (lines 62-140).\<close>

definition failedToProcess :: "string \<Rightarrow> event" where
  "failedToProcess rid = ConsoleError (''Failed to process reminder '' @ rid)"

definition processReminder :: "reminderWithMeeting \<Rightarrow> state \<Rightarrow> state" where
  "processReminder lr s =
     (case processParticipants lr (lr_participants lr) s of
        (Throw e, s1) \<Rightarrow> emit (failedToProcess (r_id (lr_reminder lr))) s1
      | (Ok _, s1) \<Rightarrow>
          (case updateReminderSent (r_id (lr_reminder lr)) s1 of
             (Throw e, s2) \<Rightarrow> emit (failedToProcess (r_id (lr_reminder lr))) s2
           | (Ok _, s2) \<Rightarrow> s2))"

fun processBatch :: "reminderWithMeeting list \<Rightarrow> state \<Rightarrow> state" where
  "processBatch [] s = s"
| "processBatch (lr # rest) s = processBatch rest (processReminder lr s)"

text \<open>\<open>processReminders\<close> (lines 32-146): a rejected selection query propagates to the
  scheduler's handler.\<close>

definition processReminders :: "state \<Rightarrow> unit result \<times> state" where
  "processReminders s =
     (let now = wallclock s in
      case dbCall s of (t, s1) \<Rightarrow>
        if t then (Throw ''meetingReminder.findMany'', s1)
        else
          (let reminders = findDueReminders now s1;
               s2 = processBatch reminders s1
           in (Ok (), if length reminders > 0
                      then emit (ConsoleLog (''Processed '' @ show_nat (length reminders) @ '' reminders'')) s2
                      else s2)))"

section \<open>Reminder lifecycle (MeetingService)\<close>

text \<open>\<open>MeetingService.createReminders\<close> (lines 594-608): one row per element of
  \<open>minutesBefore\<close>, inserted by a single \<open>createMany\<close>. The other columns take the
  schema's defaults.\<close>

definition newReminder :: "string \<Rightarrow> time \<Rightarrow> string \<Rightarrow> time \<Rightarrow> int \<Rightarrow> meetingReminder" where
  "newReminder rid created meetingId start minutes =
     \<lparr>r_id = rid, minutesBefore = minutes, scheduledFor = start - minutes * 60 * 1000,
      sentAt = None, emailSent = False, pushSent = False, inAppCreated = False,
      r_createdAt = created, r_meetingId = meetingId\<rparr>"

fun insertReminders :: "string \<Rightarrow> time \<Rightarrow> int list \<Rightarrow> state \<Rightarrow> state" where
  "insertReminders meetingId start [] s = s"
| "insertReminders meetingId start (minutes # rest) s =
     insertReminders meetingId start rest
       (s\<lparr>tbl_meetingReminder := tbl_meetingReminder s
              @ [newReminder (freshId s) (wallclock s) meetingId start minutes],
          idSupply := Suc (idSupply s)\<rparr>)"

definition createReminders :: "string \<Rightarrow> time \<Rightarrow> int list \<Rightarrow> state \<Rightarrow> unit result \<times> state" where
  "createReminders meetingId start minutesBeforeList s =
     (case dbCall s of (t, s1) \<Rightarrow>
        if t then (Throw ''meetingReminder.createMany'', s1)
        else (Ok (), insertReminders meetingId start minutesBeforeList s1))"

text \<open>\<open>prisma.meetingReminder.deleteMany({ where: { meetingId } })\<close>, as called by
  \<open>update\<close> (line 294) and \<open>cancel\<close> (line 384), and the regeneration step of
  \<open>MeetingService.update\<close> (lines 294-299, run when the input carries a start time or a
  lead-time list): delete every reminder of the meeting, then create them anew.\<close>

definition deleteReminders :: "string \<Rightarrow> state \<Rightarrow> unit result \<times> state" where
  "deleteReminders meetingId s =
     (case dbCall s of (t, s1) \<Rightarrow>
        if t then (Throw ''meetingReminder.deleteMany'', s1)
        else (Ok (), s1\<lparr>tbl_meetingReminder :=
                filter (\<lambda>r. r_meetingId r \<noteq> meetingId) (tbl_meetingReminder s1)\<rparr>))"

definition regenerate :: "string \<Rightarrow> time \<Rightarrow> int list \<Rightarrow> state \<Rightarrow> unit result \<times> state" where
  "regenerate meetingId start minutesBeforeList s =
     (case deleteReminders meetingId s of
        (Throw e, s1) \<Rightarrow> (Throw e, s1)
      | (Ok _, s1) \<Rightarrow> createReminders meetingId start minutesBeforeList s1)"

text \<open>\<open>MeetingService.getById\<close> (lines 136-159).\<close>

definition getById :: "string \<Rightarrow> string \<Rightarrow> state \<Rightarrow> meeting result \<times> state" where
  "getById meetingId userId s =
     (case dbCall s of (t, s1) \<Rightarrow>
        if t then (Throw ''meeting.findUnique'', s1)
        else case findMeeting meetingId s1 of
          None \<Rightarrow> (Throw ''Meeting not found'', s1)
        | Some m \<Rightarrow>
            if \<not> list_ex (\<lambda>p. p_meetingId p = m_id m \<and> p_userId p = Some userId)
                     (tbl_meetingParticipant s1)
               \<and> \<not> createdByUserId m = userId
            then (Throw ''Access denied'', s1)
            else (Ok m, s1))"

text \<open>\<open>createAuditLog\<close> (utils/audit.ts): never throws.\<close>

definition createAuditLog :: "state \<Rightarrow> state" where
  "createAuditLog s = (case dbCall s of (t, s1) \<Rightarrow>
     if t then emit (ConsoleError ''Failed to create audit log:'') s1 else s1)"

text \<open>The notification loop of \<open>cancel\<close> (lines 395-409). \<open>updated.createdBy.name\<close> is
  evaluated per iteration; a missing creator row (excluded by the foreign key) would be a
  TypeError there.\<close>

fun notifyCancellation ::
  "string \<Rightarrow> string \<Rightarrow> user option \<Rightarrow> meetingParticipant list \<Rightarrow> state \<Rightarrow> unit result \<times> state" where
  "notifyCancellation meetingId title creator [] s = (Ok (), s)"
| "notifyCancellation meetingId title creator (p # rest) s =
     (case p_userId p of
        None \<Rightarrow> notifyCancellation meetingId title creator rest s
      | Some uid \<Rightarrow>
          (case creator of
             None \<Rightarrow> (Throw ''TypeError'', s)
           | Some c \<Rightarrow>
               (case createMeetingCancellation uid meetingId title (u_name c) s of
                  (Throw e, s1) \<Rightarrow> (Throw e, s1)
                | (Ok _, s1) \<Rightarrow> notifyCancellation meetingId title creator rest s1)))"

text \<open>\<open>MeetingService.cancel\<close> (lines 357-422). The calendar provider call (lines 386-393)
  sits in its own try/catch and touches none of the tables below; it is left out.\<close>

definition cancel :: "string \<Rightarrow> string \<Rightarrow> state \<Rightarrow> meeting result \<times> state" where
  "cancel meetingId userId s =
     (case getById meetingId userId s of
        (Throw e, s1) \<Rightarrow> (Throw e, s1)
      | (Ok m, s1) \<Rightarrow>
          if createdByUserId m \<noteq> userId then (Throw ''Only the meeting creator can cancel it'', s1)
          else if isCancelled m then (Throw ''Meeting is already cancelled'', s1)
          else (case dbCall s1 of (t2, s2) \<Rightarrow>
            if t2 then (Throw ''meeting.update'', s2)
            else
              (let s3 = s2\<lparr>tbl_meeting :=
                          map (\<lambda>x. if m_id x = meetingId then x\<lparr>isCancelled := True\<rparr> else x)
                            (tbl_meeting s2)\<rparr>;
                   updated = m\<lparr>isCancelled := True\<rparr>;
                   participants = filter (\<lambda>p. p_meetingId p = m_id updated)
                                    (tbl_meetingParticipant s3);
                   createdBy = findUser (createdByUserId updated) s3
               in case deleteReminders meetingId s3 of
                    (Throw e, s4) \<Rightarrow> (Throw e, s4)
                  | (Ok _, s4) \<Rightarrow>
                      (case notifyCancellation meetingId (m_title updated) createdBy
                              (filter (\<lambda>p. truthy (p_userId p) \<and> p_userId p \<noteq> Some userId)
                                 participants) s4 of
                         (Throw e, s5) \<Rightarrow> (Throw e, s5)
                       | (Ok _, s5) \<Rightarrow> (Ok updated, createAuditLog s5)))))"

section \<open>Observations used by the properties\<close>

text \<open>No pending call to the store rejects.\<close>

definition dbHealthy :: "state \<Rightarrow> bool" where
  "dbHealthy s = list_all (\<lambda>oc. \<not> throws oc) (dbOutcomes s)"

text \<open>What a run from \<open>s\<close> to \<open>s'\<close> appended to the trace and to the Notification table.\<close>

definition newEvents :: "state \<Rightarrow> state \<Rightarrow> event list" where
  "newEvents s s' = drop (length (trace s)) (trace s')"

definition newNotifications :: "state \<Rightarrow> state \<Rightarrow> notification list" where
  "newNotifications s s' = drop (length (tbl_notification s)) (tbl_notification s')"

fun isPushTo :: "string \<Rightarrow> event \<Rightarrow> bool" where
  "isPushTo uid (Invoke (SendToUser u _ _) _) = (u = uid)"
| "isPushTo uid _ = False"

fun isEmailTo :: "string \<Rightarrow> event \<Rightarrow> bool" where
  "isEmailTo addr (Invoke (SendMeetingReminder to _ _) _) = (to = addr)"
| "isEmailTo addr (Invoke (SendMeetingNotification to _ _) _) = (to = addr)"
| "isEmailTo addr _ = False"

definition fullySent :: "meetingReminder \<Rightarrow> bool" where
  "fullySent r = (sentAt r \<noteq> None \<and> emailSent r \<and> pushSent r \<and> inAppCreated r)"

definition markedSent :: "string \<Rightarrow> state \<Rightarrow> bool" where
  "markedSent rid s =
     (list_ex (\<lambda>r. r_id r = rid) (tbl_meetingReminder s) \<and>
      list_all (\<lambda>r. r_id r \<noteq> rid \<or> fullySent r) (tbl_meetingReminder s))"

text \<open>A reminder row without the columns the store generates (id, createdAt).\<close>

definition reminderContent ::
  "meetingReminder \<Rightarrow> string \<times> int \<times> time \<times> time option \<times> bool \<times> bool \<times> bool" where
  "reminderContent r =
     (r_meetingId r, minutesBefore r, scheduledFor r, sentAt r, emailSent r, pushSent r, inAppCreated r)"

text \<open>The exceptions of the store calls made while the participants of a reminder are
  processed, by the call that rejected.\<close>

definition storeRejections :: "string list" where
  "storeRejections =
     [''userSettings.findUnique'', ''notification.create'', ''user.findUnique'',
      ''meeting.findUnique'']"

text \<open>The reminder rows of one meeting, and those of one (meeting, lead time) pair.\<close>

definition remindersOf :: "string \<Rightarrow> state \<Rightarrow> meetingReminder list" where
  "remindersOf meetingId s = filter (\<lambda>r. r_meetingId r = meetingId) (tbl_meetingReminder s)"

definition rowsFor :: "string \<Rightarrow> int \<Rightarrow> state \<Rightarrow> meetingReminder list" where
  "rowsFor meetingId lead s =
     filter (\<lambda>r. r_meetingId r = meetingId \<and> minutesBefore r = lead) (tbl_meetingReminder s)"

text \<open>Frame of the notification and dispatch code: the tables it only reads, and the
  append-only trace and Notification table.\<close>

definition evolves :: "state \<Rightarrow> state \<Rightarrow> bool" where
  "evolves s s' =
     (tbl_user s' = tbl_user s \<and> tbl_userSettings s' = tbl_userSettings s \<and>
      tbl_meeting s' = tbl_meeting s \<and> tbl_meetingParticipant s' = tbl_meetingParticipant s \<and>
      prefix (trace s) (trace s') \<and>
      prefix (tbl_notification s) (tbl_notification s') \<and>
      (dbHealthy s \<longrightarrow> dbHealthy s'))"

text \<open>A sender call inside try/catch as it shows in the trace: the invocation, then the
  logged error if it threw.\<close>

definition attemptLog :: "call \<Rightarrow> string \<Rightarrow> bool \<Rightarrow> event list" where
  "attemptLog c msg threw = Invoke c threw # (if threw then [ConsoleError msg] else [])"

text \<open>The trace of the two try/catch blocks of \<open>sendExternalNotifications\<close>, given the
  user row, the settings and whether each sender threw.\<close>

definition externalEvents ::
  "user option \<Rightarrow> userSettings option \<Rightarrow> string \<Rightarrow> string \<Rightarrow> string \<Rightarrow> bool \<Rightarrow> bool \<Rightarrow> event list" where
  "externalEvents usr settings uid title msg b c =
     (case usr of
        None \<Rightarrow> []
      | Some u \<Rightarrow>
          (if enabledOrAbsent emailNotificationsEnabled settings
           then attemptLog (SendMeetingNotification (u_email u) title msg)
                  ''Failed to send email notification:'' b else [])
          @ (if enabledOrAbsent pushNotificationsEnabled settings
             then attemptLog (SendToUser uid title msg)
                    ''Failed to send push notification:'' c else []))"

text \<open>The trace of the two try/catch blocks of the dispatch loop (lines 88-124).\<close>

definition directEvents ::
  "userSettings option \<Rightarrow> user \<Rightarrow> string \<Rightarrow> int \<Rightarrow> bool \<Rightarrow> bool \<Rightarrow> event list" where
  "directEvents settings usr mtitle mins b c =
     (if enabledOrAbsent emailNotificationsEnabled settings
      then attemptLog (SendMeetingReminder (u_email usr) mtitle mins)
             (''Failed to send reminder email to '' @ u_email usr) b else [])
     @ (if enabledOrAbsent pushNotificationsEnabled settings
        then attemptLog (SendToUser (u_id usr) ''Meeting Reminder'' (reminderMessage mtitle mins))
               (''Failed to send push notification to '' @ u_id usr) c else [])"

definition calm :: "state \<Rightarrow> state \<Rightarrow> bool" where
  "calm s s' = (evolves s s' \<and> tbl_meetingReminder s' = tbl_meetingReminder s)"

text \<open>Every reminder email that threw is followed up by its logged error.\<close>

fun loggedIn :: "event list \<Rightarrow> event \<Rightarrow> bool" where
  "loggedIn es (Invoke (SendMeetingReminder to _ _) True) =
     (ConsoleError (''Failed to send reminder email to '' @ to) \<in> set es)"
| "loggedIn es _ = True"

definition emailFailuresLogged :: "event list \<Rightarrow> bool" where
  "emailFailuresLogged es = list_all (loggedIn es) es"

subsection \<open>A concrete store: one meeting in 16 minutes, lead times 15 and 5\<close>

definition alice :: user where
  "alice = \<lparr>u_id = ''u1'', u_email = ''alice@example.com'', u_name = ''Alice''\<rparr>"

definition bob :: user where
  "bob = \<lparr>u_id = ''u2'', u_email = ''bob@example.com'', u_name = ''Bob''\<rparr>"

definition standup :: meeting where
  "standup = \<lparr>m_id = ''m1'', m_title = ''Standup'', startTime = 960000, endTime = 2760000,
     isCancelled = False, reminderMinutesBefore = [15, 5], createdByUserId = ''u1''\<rparr>"

definition pAlice :: meetingParticipant where
  "pAlice = \<lparr>p_id = ''p1'', p_email = ''alice@example.com'', p_meetingId = ''m1'', p_userId = Some ''u1''\<rparr>"

definition pBob :: meetingParticipant where
  "pBob = \<lparr>p_id = ''p2'', p_email = ''bob@example.com'', p_meetingId = ''m1'', p_userId = Some ''u2''\<rparr>"

definition pCarol :: meetingParticipant where
  "pCarol = \<lparr>p_id = ''p3'', p_email = ''carol@example.com'', p_meetingId = ''m1'', p_userId = None\<rparr>"

definition rem15 :: meetingReminder where
  "rem15 = \<lparr>r_id = ''r1'', minutesBefore = 15, scheduledFor = 60000, sentAt = None,
     emailSent = False, pushSent = False, inAppCreated = False, r_createdAt = - 1000,
     r_meetingId = ''m1''\<rparr>"

definition rem5 :: meetingReminder where
  "rem5 = \<lparr>r_id = ''r2'', minutesBefore = 5, scheduledFor = 660000, sentAt = None,
     emailSent = False, pushSent = False, inAppCreated = False, r_createdAt = - 1000,
     r_meetingId = ''m1''\<rparr>"

definition store0 :: state where
  "store0 = \<lparr>tbl_user = [alice, bob], tbl_userSettings = [], tbl_meeting = [standup],
     tbl_meetingParticipant = [pAlice, pBob, pCarol], tbl_meetingReminder = [rem15, rem5],
     tbl_notification = [], idSupply = 0, wallclock = 0,
     dbOutcomes = [], smtpOutcomes = [], pushOutcomes = [], trace = []\<rparr>"

definition failing :: outcome where
  "failing = \<lparr>throws = True, elapsed = 5\<rparr>"

definition passing :: outcome where
  "passing = \<lparr>throws = False, elapsed = 5\<rparr>"

definition settingsFor :: "string \<Rightarrow> bool \<Rightarrow> bool \<Rightarrow> bool \<Rightarrow> userSettings" where
  "settingsFor uid email push inApp =
     \<lparr>us_userId = uid, emailNotificationsEnabled = email, pushNotificationsEnabled = push,
      inAppNotificationsEnabled = inApp\<rparr>"

definition loaded15 :: reminderWithMeeting where
  "loaded15 = \<lparr>lr_reminder = rem15, lr_meeting = standup,
     lr_participants = [(pAlice, Some alice), (pBob, Some bob), (pCarol, None)]\<rparr>"

section \<open>Frame and trace lemmas\<close>


subsection \<open>Frame\<close>

lemma evolves_refl [simp]: "evolves s s"
  by (simp add: evolves_def)

lemma evolves_trans: "evolves a b \<Longrightarrow> evolves b c \<Longrightarrow> evolves a c"
  unfolding evolves_def by (auto intro: prefix_order.trans)

lemma calm_refl [simp]: "calm s s"
  by (simp add: calm_def)

lemma calm_trans: "calm a b \<Longrightarrow> calm b c \<Longrightarrow> calm a c"
  unfolding calm_def by (auto intro: evolves_trans)

lemma calm_evolves: "calm s s' \<Longrightarrow> evolves s s'"
  by (simp add: calm_def)

lemma evolves_lookups:
  assumes "evolves s s'"
  shows "findSettings u s' = findSettings u s" "findUser u s' = findUser u s"
    "findMeeting m s' = findMeeting m s"
  using assms by (simp_all add: evolves_def findSettings_def findUser_def findMeeting_def)

lemma newEvents_self [simp]: "newEvents s s = []"
  by (simp add: newEvents_def)

lemma newNotifications_self [simp]: "newNotifications s s = []"
  by (simp add: newNotifications_def)

lemma prefix_drop_append:
  "prefix xs ys \<Longrightarrow> prefix ys zs \<Longrightarrow> drop (length xs) zs = drop (length xs) ys @ drop (length ys) zs"
  by (auto simp: prefix_def)

lemma newEvents_trans:
  "evolves a b \<Longrightarrow> evolves b c \<Longrightarrow> newEvents a c = newEvents a b @ newEvents b c"
  unfolding evolves_def newEvents_def by (blast intro: prefix_drop_append)

lemma newNotifications_trans:
  "evolves a b \<Longrightarrow> evolves b c \<Longrightarrow> newNotifications a c = newNotifications a b @ newNotifications b c"
  unfolding evolves_def newNotifications_def by (blast intro: prefix_drop_append)

lemma trace_newEvents: "evolves s s' \<Longrightarrow> trace s' = trace s @ newEvents s s'"
  by (auto simp: evolves_def newEvents_def prefix_def)

lemma dbCall_calm:
  assumes "dbCall s = (t, s')"
  shows "calm s s'" "newEvents s s' = []" "newNotifications s s' = []"
    "idSupply s' = idSupply s" "dbHealthy s \<Longrightarrow> \<not> t"
  using assms
  by (auto simp: dbCall_def nextOutcome_def calm_def evolves_def dbHealthy_def newEvents_def
      newNotifications_def split: list.splits)

lemma smtpCall_calm:
  assumes "smtpCall s = (t, s')"
  shows "calm s s'" "newEvents s s' = []" "newNotifications s s' = []"
  using assms
  by (auto simp: smtpCall_def nextOutcome_def calm_def evolves_def dbHealthy_def newEvents_def
      newNotifications_def split: list.splits)

lemma pushCall_calm:
  assumes "pushCall s = (t, s')"
  shows "calm s s'" "newEvents s s' = []" "newNotifications s s' = []"
  using assms
  by (auto simp: pushCall_def nextOutcome_def calm_def evolves_def dbHealthy_def newEvents_def
      newNotifications_def split: list.splits)

lemma emit_calm:
  "calm s (emit e s)" "newEvents s (emit e s) = [e]" "newNotifications s (emit e s) = []"
  by (auto simp: emit_def calm_def evolves_def dbHealthy_def newEvents_def newNotifications_def)


subsection \<open>Senders\<close>

lemma sendMeetingReminder_calm:
  assumes "sendMeetingReminder to title mins s = (res, s')"
  shows "calm s s'" "newNotifications s s' = []"
    "\<exists>b. newEvents s s' = [Invoke (SendMeetingReminder to title mins) b] \<and> (b \<longleftrightarrow> res \<noteq> Ok ())"
proof -
  obtain t s1 where c: "smtpCall s = (t, s1)" by (cases "smtpCall s")
  with assms have s': "s' = emit (Invoke (SendMeetingReminder to title mins) t) s1"
    and r: "res = (if t then Throw ''sendMail'' else Ok ())"
    by (auto simp: sendMeetingReminder_def)
  have e: "evolves s s1" "evolves s1 s'"
    using smtpCall_calm(1)[OF c] emit_calm(1)[of s1] s' by (auto simp: calm_def)
  show "calm s s'" using smtpCall_calm(1)[OF c] emit_calm(1)[of s1] s' by (auto intro: calm_trans)
  show "newNotifications s s' = []"
    using newNotifications_trans[OF e] smtpCall_calm(3)[OF c] emit_calm(3)[of s1] s' by simp
  show "\<exists>b. newEvents s s' = [Invoke (SendMeetingReminder to title mins) b] \<and> (b \<longleftrightarrow> res \<noteq> Ok ())"
    using newEvents_trans[OF e] smtpCall_calm(2)[OF c] emit_calm(2)[of s1] s' r by auto
qed

lemma sendMeetingNotification_calm:
  assumes "sendMeetingNotification to title msg s = (res, s')"
  shows "calm s s'" "newNotifications s s' = []"
    "\<exists>b. newEvents s s' = [Invoke (SendMeetingNotification to title msg) b] \<and> (b \<longleftrightarrow> res \<noteq> Ok ())"
proof -
  obtain t s1 where c: "smtpCall s = (t, s1)" by (cases "smtpCall s")
  with assms have s': "s' = emit (Invoke (SendMeetingNotification to title msg) t) s1"
    and r: "res = (if t then Throw ''sendMail'' else Ok ())"
    by (auto simp: sendMeetingNotification_def)
  have e: "evolves s s1" "evolves s1 s'"
    using smtpCall_calm(1)[OF c] emit_calm(1)[of s1] s' by (auto simp: calm_def)
  show "calm s s'" using smtpCall_calm(1)[OF c] emit_calm(1)[of s1] s' by (auto intro: calm_trans)
  show "newNotifications s s' = []"
    using newNotifications_trans[OF e] smtpCall_calm(3)[OF c] emit_calm(3)[of s1] s' by simp
  show "\<exists>b. newEvents s s' = [Invoke (SendMeetingNotification to title msg) b] \<and> (b \<longleftrightarrow> res \<noteq> Ok ())"
    using newEvents_trans[OF e] smtpCall_calm(2)[OF c] emit_calm(2)[of s1] s' r by auto
qed

lemma sendToUser_calm:
  assumes "sendToUser uid title body s = (res, s')"
  shows "calm s s'" "newNotifications s s' = []"
    "\<exists>b. newEvents s s' = [Invoke (SendToUser uid title body) b] \<and> (b \<longleftrightarrow> res \<noteq> Ok ())"
proof -
  obtain t s1 where c: "pushCall s = (t, s1)" by (cases "pushCall s")
  with assms have s': "s' = emit (Invoke (SendToUser uid title body) t) s1"
    and r: "res = (if t then Throw ''sendToUser'' else Ok ())"
    by (auto simp: sendToUser_def)
  have e: "evolves s s1" "evolves s1 s'"
    using pushCall_calm(1)[OF c] emit_calm(1)[of s1] s' by (auto simp: calm_def)
  show "calm s s'" using pushCall_calm(1)[OF c] emit_calm(1)[of s1] s' by (auto intro: calm_trans)
  show "newNotifications s s' = []"
    using newNotifications_trans[OF e] pushCall_calm(3)[OF c] emit_calm(3)[of s1] s' by simp
  show "\<exists>b. newEvents s s' = [Invoke (SendToUser uid title body) b] \<and> (b \<longleftrightarrow> res \<noteq> Ok ())"
    using newEvents_trans[OF e] pushCall_calm(2)[OF c] emit_calm(2)[of s1] s' r by auto
qed

text \<open>A sender call wrapped in try/catch with a logged error.\<close>

lemma caught_calm:
  assumes call: "\<And>res s'. f s = (res, s') \<Longrightarrow> calm s s' \<and> newNotifications s s' = [] \<and>
       (\<exists>b. newEvents s s' = [Invoke c b] \<and> (b \<longleftrightarrow> res \<noteq> Ok ()))"
    and s': "s' = (case f s of (Throw e, x) \<Rightarrow> emit (ConsoleError msg) x | (Ok _, x) \<Rightarrow> x)"
  shows "calm s s' \<and> newNotifications s s' = [] \<and> (\<exists>b. newEvents s s' = attemptLog c msg b)"
proof -
  obtain res x where fx: "f s = (res, x)" by (cases "f s")
  from call[OF fx] obtain b where cx: "calm s x" and nx: "newNotifications s x = []"
    and ex: "newEvents s x = [Invoke c b]" and b: "b \<longleftrightarrow> res \<noteq> Ok ()" by auto
  show ?thesis
  proof (cases res)
    case (Ok u)
    then have "s' = x" using s' fx by simp
    moreover have "\<not> b" using b Ok by simp
    ultimately show ?thesis using cx nx ex by (auto simp: attemptLog_def)
  next
    case (Throw e)
    then have sx: "s' = emit (ConsoleError msg) x" using s' fx by simp
    have b': "b" using b Throw by simp
    have e2: "evolves s x" "evolves x s'" using cx emit_calm(1)[of x] sx by (auto simp: calm_def)
    have "calm s s'" using cx emit_calm(1)[of x] sx by (auto intro: calm_trans)
    moreover have "newNotifications s s' = []"
      using newNotifications_trans[OF e2] nx emit_calm(3)[of x] sx by simp
    moreover have "newEvents s s' = attemptLog c msg b"
      using newEvents_trans[OF e2] ex emit_calm(2)[of x] sx b' by (simp add: attemptLog_def)
    ultimately show ?thesis by blast
  qed
qed


lemma calm_compose:
  assumes "calm a b" "calm b c"
  shows "calm a c" "newEvents a c = newEvents a b @ newEvents b c"
    "newNotifications a c = newNotifications a b @ newNotifications b c"
  using assms newEvents_trans[of a b c] newNotifications_trans[of a b c] calm_trans[of a b c]
  by (simp_all add: calm_def)

lemma calm_healthy: "calm s s' \<Longrightarrow> dbHealthy s \<Longrightarrow> dbHealthy s'"
  by (simp add: calm_def evolves_def)

lemma calm_lookups:
  assumes "calm s s'"
  shows "findSettings u s' = findSettings u s" "findUser u s' = findUser u s"
    "findMeeting m s' = findMeeting m s"
  using assms evolves_lookups[of s s'] by (simp_all add: calm_def)

subsection \<open>NotificationService\<close>

lemma create_facts:
  assumes "create uid ty title msg rel s = (res, s')"
  shows "calm s s'" "newEvents s s' = []"
    "dbHealthy s \<Longrightarrow> \<exists>n. res = Ok n \<and>
       (if enabledOrAbsent inAppNotificationsEnabled (findSettings uid s)
        then newNotifications s s' = [n] \<and> n_userId n = uid \<and> n_type n = ty \<and> n_title n = title
             \<and> n_message n = msg \<and> relatedMeetingId n = rel \<and> \<not> isRead n
        else newNotifications s s' = [] \<and> n_id n = [] \<and> isRead n)"
  using assms
  by (auto simp: create_def dbCall_def nextOutcome_def calm_def evolves_def dbHealthy_def
      newEvents_def newNotifications_def findSettings_def Let_def
      split: list.splits if_splits prod.splits)


lemma step_compose:
  assumes "calm a b \<and> newNotifications a b = [] \<and> newEvents a b = E1"
    and "calm b c \<and> newNotifications b c = [] \<and> newEvents b c = E2"
  shows "calm a c \<and> newNotifications a c = [] \<and> newEvents a c = E1 @ E2"
  using assms calm_compose[of a b c] by simp

lemma sendExternalNotifications_facts:
  assumes run: "sendExternalNotifications uid title msg mid s = (res, s')"
  shows "calm s s'" "newNotifications s s' = []"
    "\<exists>b c. newEvents s s' =
       (case (res, findUser uid s) of
          (Ok _, Some usr) \<Rightarrow>
            (if enabledOrAbsent emailNotificationsEnabled (findSettings uid s)
             then attemptLog (SendMeetingNotification (u_email usr) title msg)
                    ''Failed to send email notification:'' b else [])
            @ (if enabledOrAbsent pushNotificationsEnabled (findSettings uid s)
               then attemptLog (SendToUser uid title msg)
                      ''Failed to send push notification:'' c else [])
        | _ \<Rightarrow> [])"
    "dbHealthy s \<Longrightarrow> res = Ok ()"
proof -
  let ?E = "\<lambda>b c. (case (res, findUser uid s) of
          (Ok _, Some usr) \<Rightarrow>
            (if enabledOrAbsent emailNotificationsEnabled (findSettings uid s)
             then attemptLog (SendMeetingNotification (u_email usr) title msg)
                    ''Failed to send email notification:'' b else [])
            @ (if enabledOrAbsent pushNotificationsEnabled (findSettings uid s)
               then attemptLog (SendToUser uid title msg)
                      ''Failed to send push notification:'' c else [])
        | _ \<Rightarrow> [])"
  have all: "calm s s' \<and> newNotifications s s' = [] \<and> (\<exists>b c. newEvents s s' = ?E b c)
      \<and> (dbHealthy s \<longrightarrow> res = Ok ())"
  proof -
    obtain t1 s1 where c1: "dbCall s = (t1, s1)" by (cases "dbCall s")
    note d1 = dbCall_calm[OF c1]
    have st1: "calm s s1 \<and> newNotifications s s1 = [] \<and> newEvents s s1 = []"
      using d1 by simp
    show ?thesis
    proof (cases t1)
      case True
      with run c1 have "res = Throw ''user.findUnique''" "s' = s1"
        by (auto simp: sendExternalNotifications_def)
      then show ?thesis using st1 d1(5) True by auto
    next
      case nt1: False
      show ?thesis
      proof (cases "findUser uid s1")
        case None
        with run c1 nt1 have "res = Ok ()" "s' = s1"
          by (auto simp: sendExternalNotifications_def)
        moreover have "findUser uid s = None" using None calm_lookups(2)[OF d1(1)] by simp
        ultimately show ?thesis using st1 by auto
      next
        case (Some usr)
        then have fu: "findUser uid s = Some usr" using calm_lookups(2)[OF d1(1)] by simp
        have fs: "findSettings uid s1 = findSettings uid s" using calm_lookups(1)[OF d1(1)] by simp
        obtain t2 s2 where c2: "(if truthy mid then dbCall s1 else (False, s1)) = (t2, s2)"
          by (cases "if truthy mid then dbCall s1 else (False, s1)")
        have st2: "calm s1 s2 \<and> newNotifications s1 s2 = [] \<and> newEvents s1 s2 = []"
          and h2: "dbHealthy s1 \<Longrightarrow> \<not> t2"
          using c2 dbCall_calm[of s1 t2 s2] by (auto split: if_splits)
        note st12 = step_compose[OF st1 st2]
        have h1: "dbHealthy s \<Longrightarrow> dbHealthy s1" using calm_healthy[OF d1(1)] .
        show ?thesis
        proof (cases t2)
          case True
          with run c1 nt1 Some c2 have "res = Throw ''meeting.findUnique''" "s' = s2"
            by (auto simp: sendExternalNotifications_def Let_def)
          then show ?thesis using st12 h1 h2 True by auto
        next
          case nt2: False
          define s3 where "s3 = (if enabledOrAbsent emailNotificationsEnabled (findSettings uid s) then
                 (case sendMeetingNotification (u_email usr) title msg s2 of
                    (Throw e, x) \<Rightarrow> emit (ConsoleError ''Failed to send email notification:'') x
                  | (Ok _, x) \<Rightarrow> x)
               else s2)"
          define s4 where "s4 = (if enabledOrAbsent pushNotificationsEnabled (findSettings uid s) then
                 (case sendToUser uid title msg s3 of
                    (Throw e, x) \<Rightarrow> emit (ConsoleError ''Failed to send push notification:'') x
                  | (Ok _, x) \<Rightarrow> x)
               else s3)"
          from run c1 nt1 Some c2 nt2 fs have res: "res = Ok ()" and s': "s' = s4"
            by (auto simp: sendExternalNotifications_def Let_def s3_def s4_def)
          have st3: "\<exists>b. calm s2 s3 \<and> newNotifications s2 s3 = [] \<and> newEvents s2 s3 =
              (if enabledOrAbsent emailNotificationsEnabled (findSettings uid s)
               then attemptLog (SendMeetingNotification (u_email usr) title msg)
                      ''Failed to send email notification:'' b else [])"
          proof (cases "enabledOrAbsent emailNotificationsEnabled (findSettings uid s)")
            case True
            then have "s3 = (case sendMeetingNotification (u_email usr) title msg s2 of
                    (Throw e, x) \<Rightarrow> emit (ConsoleError ''Failed to send email notification:'') x
                  | (Ok _, x) \<Rightarrow> x)" by (simp add: s3_def)
            from caught_calm[where f = "sendMeetingNotification (u_email usr) title msg", OF _ this]
              sendMeetingNotification_calm[of "u_email usr" title msg s2]
            show ?thesis using True by auto
          next
            case False
            then show ?thesis by (simp add: s3_def)
          qed
          have st4: "\<exists>c. calm s3 s4 \<and> newNotifications s3 s4 = [] \<and> newEvents s3 s4 =
              (if enabledOrAbsent pushNotificationsEnabled (findSettings uid s)
               then attemptLog (SendToUser uid title msg)
                      ''Failed to send push notification:'' c else [])"
          proof (cases "enabledOrAbsent pushNotificationsEnabled (findSettings uid s)")
            case True
            then have "s4 = (case sendToUser uid title msg s3 of
                    (Throw e, x) \<Rightarrow> emit (ConsoleError ''Failed to send push notification:'') x
                  | (Ok _, x) \<Rightarrow> x)" by (simp add: s4_def)
            from caught_calm[where f = "sendToUser uid title msg", OF _ this]
              sendToUser_calm[of uid title msg s3]
            show ?thesis using True by auto
          next
            case False
            then show ?thesis by (simp add: s4_def)
          qed
          from st3 obtain b where st3': "calm s2 s3 \<and> newNotifications s2 s3 = [] \<and> newEvents s2 s3 =
              (if enabledOrAbsent emailNotificationsEnabled (findSettings uid s)
               then attemptLog (SendMeetingNotification (u_email usr) title msg)
                      ''Failed to send email notification:'' b else [])" by blast
          from st4 obtain c where st4': "calm s3 s4 \<and> newNotifications s3 s4 = [] \<and> newEvents s3 s4 =
              (if enabledOrAbsent pushNotificationsEnabled (findSettings uid s)
               then attemptLog (SendToUser uid title msg)
                      ''Failed to send push notification:'' c else [])" by blast
          note st = step_compose[OF step_compose[OF st12 st3'] st4']
          have "newEvents s s' = ?E b c" using st s' res fu by simp
          then show ?thesis using st s' res by blast
        qed
      qed
    qed
  qed
  show "calm s s'" "newNotifications s s' = []" "\<exists>b c. newEvents s s' = ?E b c"
    "dbHealthy s \<Longrightarrow> res = Ok ()" using all by blast+
qed


lemma sendExternalNotifications_events:
  assumes "sendExternalNotifications uid title msg mid s = (res, s')"
  shows "\<exists>b c. newEvents s s' =
     (case res of Throw _ \<Rightarrow> []
      | Ok _ \<Rightarrow> externalEvents (findUser uid s) (findSettings uid s) uid title msg b c)"
proof -
  from sendExternalNotifications_facts(3)[OF assms] obtain b c where
    "newEvents s s' =
       (case (res, findUser uid s) of
          (Ok _, Some usr) \<Rightarrow>
            (if enabledOrAbsent emailNotificationsEnabled (findSettings uid s)
             then attemptLog (SendMeetingNotification (u_email usr) title msg)
                    ''Failed to send email notification:'' b else [])
            @ (if enabledOrAbsent pushNotificationsEnabled (findSettings uid s)
               then attemptLog (SendToUser uid title msg)
                      ''Failed to send push notification:'' c else [])
        | _ \<Rightarrow> [])" by blast
  then have "newEvents s s' =
     (case res of Throw _ \<Rightarrow> []
      | Ok _ \<Rightarrow> externalEvents (findUser uid s) (findSettings uid s) uid title msg b c)"
    by (simp add: externalEvents_def split: result.splits option.splits)
  then show ?thesis by blast
qed

text \<open>\<open>create\<close> followed by \<open>sendExternalNotifications\<close>, as every specific creator does.\<close>

lemma create_then_send:
  assumes run: "(case create uid ty title msg rel s of
        (Throw e, s1) \<Rightarrow> (Throw e, s1)
      | (Ok _, s1) \<Rightarrow> sendExternalNotifications uid title msg rel s1) = (res, s')"
  shows "calm s s'"
    "\<exists>b c. newEvents s s' =
       (case res of Throw _ \<Rightarrow> []
        | Ok _ \<Rightarrow> externalEvents (findUser uid s) (findSettings uid s) uid title msg b c)"
    "dbHealthy s \<Longrightarrow> res = Ok () \<and>
       (if enabledOrAbsent inAppNotificationsEnabled (findSettings uid s)
        then \<exists>n. newNotifications s s' = [n] \<and> n_userId n = uid \<and> n_type n = ty \<and> n_title n = title
             \<and> n_message n = msg \<and> relatedMeetingId n = rel \<and> \<not> isRead n
        else newNotifications s s' = [])"
proof -
  obtain r1 s1 where c: "create uid ty title msg rel s = (r1, s1)"
    by (cases "create uid ty title msg rel s")
  note cf = create_facts[OF c]
  show "calm s s'"
    using run c cf(1) sendExternalNotifications_facts(1)[of uid title msg rel s1 res s']
    by (cases r1) (auto intro: calm_trans)
  show "\<exists>b c. newEvents s s' =
       (case res of Throw _ \<Rightarrow> []
        | Ok _ \<Rightarrow> externalEvents (findUser uid s) (findSettings uid s) uid title msg b c)"
  proof (cases r1)
    case (Throw e)
    with run c have "res = Throw e" "s' = s1" by auto
    then show ?thesis using cf(2) by simp
  next
    case (Ok n)
    with run c have r: "sendExternalNotifications uid title msg rel s1 = (res, s')" by simp
    from sendExternalNotifications_events[OF r] obtain b d where
      "newEvents s1 s' = (case res of Throw _ \<Rightarrow> []
        | Ok _ \<Rightarrow> externalEvents (findUser uid s1) (findSettings uid s1) uid title msg b d)"
      by blast
    moreover have "newEvents s s' = newEvents s s1 @ newEvents s1 s'"
      using calm_compose(2)[OF cf(1) sendExternalNotifications_facts(1)[OF r]] .
    ultimately have "newEvents s s' = (case res of Throw _ \<Rightarrow> []
        | Ok _ \<Rightarrow> externalEvents (findUser uid s) (findSettings uid s) uid title msg b d)"
      using cf(2) calm_lookups[OF cf(1)] by (simp split: result.splits)
    then show ?thesis by blast
  qed
  show "dbHealthy s \<Longrightarrow> res = Ok () \<and>
       (if enabledOrAbsent inAppNotificationsEnabled (findSettings uid s)
        then \<exists>n. newNotifications s s' = [n] \<and> n_userId n = uid \<and> n_type n = ty \<and> n_title n = title
             \<and> n_message n = msg \<and> relatedMeetingId n = rel \<and> \<not> isRead n
        else newNotifications s s' = [])"
  proof -
    assume h: "dbHealthy s"
    from cf(3)[OF h] obtain n where n: "r1 = Ok n" and
      nn: "(if enabledOrAbsent inAppNotificationsEnabled (findSettings uid s)
        then newNotifications s s1 = [n] \<and> n_userId n = uid \<and> n_type n = ty \<and> n_title n = title
             \<and> n_message n = msg \<and> relatedMeetingId n = rel \<and> \<not> isRead n
        else newNotifications s s1 = [] \<and> n_id n = [] \<and> isRead n)" by blast
    from n run c have r: "sendExternalNotifications uid title msg rel s1 = (res, s')" by simp
    note sf = sendExternalNotifications_facts[OF r]
    have "res = Ok ()" using sf(4) calm_healthy[OF cf(1) h] by simp
    moreover have "newNotifications s s' = newNotifications s s1"
      using calm_compose(3)[OF cf(1) sf(1)] sf(2) by simp
    ultimately show ?thesis using nn by (auto split: if_splits)
  qed
qed

lemma createMeetingReminder_facts:
  assumes run: "createMeetingReminder uid mid mtitle mins s = (res, s')"
  shows "calm s s'"
    "\<exists>b c. newEvents s s' =
       (case res of Throw _ \<Rightarrow> []
        | Ok _ \<Rightarrow> externalEvents (findUser uid s) (findSettings uid s) uid ''Meeting Reminder''
                    (reminderMessage mtitle mins) b c)"
    "dbHealthy s \<Longrightarrow> res = Ok () \<and>
       (if enabledOrAbsent inAppNotificationsEnabled (findSettings uid s)
        then \<exists>n. newNotifications s s' = [n] \<and> n_userId n = uid \<and> n_type n = MEETING_REMINDER
             \<and> n_title n = ''Meeting Reminder''
             \<and> n_message n = reminderMessage mtitle mins \<and> relatedMeetingId n = Some mid \<and> \<not> isRead n
        else newNotifications s s' = [])"
  using create_then_send[where uid = uid and ty = MEETING_REMINDER and title = "''Meeting Reminder''"
      and msg = "reminderMessage mtitle mins" and rel = "Some mid" and s = s and res = res
      and s' = s'] run
  unfolding createMeetingReminder_def by blast+

lemma createMeetingCancellation_calm:
  assumes run: "createMeetingCancellation uid mid mtitle cname s = (res, s')"
  shows "calm s s'"
  using create_then_send(1)[where uid = uid and ty = MEETING_CANCELLED
      and title = "''Meeting Cancelled''" and msg = "cancellationMessage cname mtitle"
      and rel = "Some mid" and s = s and res = res and s' = s'] run
  unfolding createMeetingCancellation_def by blast


subsection \<open>Dispatch\<close>

lemma processParticipant_skip:
  "\<not> truthy (p_userId p) \<or> u = None \<Longrightarrow> processParticipant lr (p, u) s = (Ok (), s)"
  by (auto simp: processParticipant_def)

lemma processParticipant_facts:
  assumes run: "processParticipant lr (p, Some usr) s = (res, s')" and linked: "truthy (p_userId p)"
  shows "calm s s'"
    "\<exists>b1 c1 b2 c2. newEvents s s' =
       (case res of Throw _ \<Rightarrow> []
        | Ok _ \<Rightarrow>
            (if enabledOrAbsent inAppNotificationsEnabled (findSettings (u_id usr) s)
             then externalEvents (findUser (u_id usr) s) (findSettings (u_id usr) s) (u_id usr)
                    ''Meeting Reminder''
                    (reminderMessage (m_title (lr_meeting lr)) (minutesBefore (lr_reminder lr))) b1 c1
             else [])
            @ directEvents (findSettings (u_id usr) s) usr (m_title (lr_meeting lr))
                (minutesBefore (lr_reminder lr)) b2 c2)"
    "dbHealthy s \<Longrightarrow> res = Ok () \<and>
       (if enabledOrAbsent inAppNotificationsEnabled (findSettings (u_id usr) s)
        then \<exists>n. newNotifications s s' = [n] \<and> n_userId n = u_id usr \<and> n_type n = MEETING_REMINDER
             \<and> n_title n = ''Meeting Reminder''
             \<and> n_message n = reminderMessage (m_title (lr_meeting lr)) (minutesBefore (lr_reminder lr))
             \<and> relatedMeetingId n = Some (m_id (lr_meeting lr)) \<and> \<not> isRead n
        else newNotifications s s' = [])"
proof -
  let ?uid = "u_id usr"
  let ?st = "findSettings ?uid s"
  let ?mins = "minutesBefore (lr_reminder lr)"
  let ?title = "m_title (lr_meeting lr)"
  let ?msg = "reminderMessage ?title ?mins"
  let ?N = "\<lambda>x. (if enabledOrAbsent inAppNotificationsEnabled ?st
        then \<exists>n. newNotifications s x = [n] \<and> n_userId n = ?uid \<and> n_type n = MEETING_REMINDER
             \<and> n_title n = ''Meeting Reminder''
             \<and> n_message n = ?msg
             \<and> relatedMeetingId n = Some (m_id (lr_meeting lr)) \<and> \<not> isRead n
        else newNotifications s x = [])"
  let ?E = "\<lambda>b1 c1 b2 c2. (case res of Throw _ \<Rightarrow> []
        | Ok _ \<Rightarrow>
            (if enabledOrAbsent inAppNotificationsEnabled ?st
             then externalEvents (findUser ?uid s) ?st ?uid ''Meeting Reminder'' ?msg b1 c1
             else [])
            @ directEvents ?st usr ?title ?mins b2 c2)"
  have all: "calm s s' \<and> (\<exists>b1 c1 b2 c2. newEvents s s' = ?E b1 c1 b2 c2)
       \<and> (dbHealthy s \<longrightarrow> res = Ok () \<and> ?N s')"
  proof -
    obtain t1 s1 where c1: "dbCall s = (t1, s1)" by (cases "dbCall s")
    note d1 = dbCall_calm[OF c1]
    show ?thesis
    proof (cases t1)
      case True
      with run linked c1 have "res = Throw ''userSettings.findUnique''" "s' = s1"
        by (auto simp: processParticipant_def)
      then show ?thesis using d1 True by auto
    next
      case nt1: False
      have fs: "findSettings ?uid s1 = ?st" using calm_lookups(1)[OF d1(1)] by simp
      have fu: "findUser ?uid s1 = findUser ?uid s" using calm_lookups(2)[OF d1(1)] by simp
      obtain r2 s2 where c2: "(if enabledOrAbsent inAppNotificationsEnabled ?st
                         then createMeetingReminder ?uid (m_id (lr_meeting lr)) ?title ?mins s1
                         else (Ok (), s1)) = (r2, s2)"
        by (cases "if enabledOrAbsent inAppNotificationsEnabled ?st
                         then createMeetingReminder ?uid (m_id (lr_meeting lr)) ?title ?mins s1
                         else (Ok (), s1)")
      have k2: "calm s1 s2"
        using c2 createMeetingReminder_facts(1)[of ?uid "m_id (lr_meeting lr)" ?title ?mins s1 r2 s2]
        by (auto split: if_splits)
      have e2: "\<exists>b c. newEvents s1 s2 = (case r2 of Throw _ \<Rightarrow> []
          | Ok _ \<Rightarrow> (if enabledOrAbsent inAppNotificationsEnabled ?st
             then externalEvents (findUser ?uid s) ?st ?uid ''Meeting Reminder'' ?msg b c
             else []))"
      proof (cases "enabledOrAbsent inAppNotificationsEnabled ?st")
        case True
        with c2 have "createMeetingReminder ?uid (m_id (lr_meeting lr)) ?title ?mins s1 = (r2, s2)"
          by simp
        from createMeetingReminder_facts(2)[OF this] obtain b c where
          "newEvents s1 s2 = (case r2 of Throw _ \<Rightarrow> []
            | Ok _ \<Rightarrow> externalEvents (findUser ?uid s1) (findSettings ?uid s1) ?uid
                ''Meeting Reminder'' ?msg b c)" by blast
        then have "newEvents s1 s2 = (case r2 of Throw _ \<Rightarrow> []
          | Ok _ \<Rightarrow> (if enabledOrAbsent inAppNotificationsEnabled ?st
             then externalEvents (findUser ?uid s) ?st ?uid ''Meeting Reminder'' ?msg b c
             else []))"
          using True fs fu by (cases r2) simp_all
        then show ?thesis by blast
      next
        case False
        with c2 have "r2 = Ok ()" "s2 = s1" by auto
        then show ?thesis using False by simp
      qed
      have h2: "dbHealthy s \<Longrightarrow> r2 = Ok () \<and> ?N s2"
      proof -
        assume h: "dbHealthy s"
        then have h1: "dbHealthy s1" using calm_healthy[OF d1(1)] by simp
        have nn: "newNotifications s s2 = newNotifications s1 s2"
          using calm_compose(3)[OF d1(1) k2] d1(3) by simp
        show "r2 = Ok () \<and> ?N s2"
        proof (cases "enabledOrAbsent inAppNotificationsEnabled ?st")
          case True
          with c2 have "createMeetingReminder ?uid (m_id (lr_meeting lr)) ?title ?mins s1 = (r2, s2)"
            by simp
          from createMeetingReminder_facts(3)[OF this h1] True fs nn show ?thesis by simp
        next
          case False
          with c2 nn show ?thesis by auto
        qed
      qed
      show ?thesis
      proof (cases r2)
        case (Throw e)
        with run linked c1 nt1 c2 fs have "res = Throw e" "s' = s2"
          by (auto simp: processParticipant_def Let_def)
        moreover have "newEvents s s2 = []"
          using calm_compose(2)[OF d1(1) k2] d1(2) e2 Throw by auto
        ultimately show ?thesis using calm_trans[OF d1(1) k2] h2 Throw by auto
      next
        case (Ok u2)
        define s3 where "s3 = (if enabledOrAbsent emailNotificationsEnabled ?st then
                 (case sendMeetingReminder (u_email usr) ?title ?mins s2 of
                    (Throw e, x) \<Rightarrow> emit (ConsoleError (''Failed to send reminder email to '' @ u_email usr)) x
                  | (Ok _, x) \<Rightarrow> x)
               else s2)"
        define s4 where "s4 = (if enabledOrAbsent pushNotificationsEnabled ?st then
                 (case sendToUser ?uid ''Meeting Reminder'' ?msg s3 of
                    (Throw e, x) \<Rightarrow> emit (ConsoleError (''Failed to send push notification to '' @ ?uid)) x
                  | (Ok _, x) \<Rightarrow> x)
               else s3)"
        from run linked c1 nt1 c2 Ok fs have res: "res = Ok ()" and s': "s' = s4"
          by (auto simp: processParticipant_def Let_def s3_def s4_def)
        have st3: "\<exists>b. calm s2 s3 \<and> newNotifications s2 s3 = [] \<and> newEvents s2 s3 =
              (if enabledOrAbsent emailNotificationsEnabled ?st
               then attemptLog (SendMeetingReminder (u_email usr) ?title ?mins)
                      (''Failed to send reminder email to '' @ u_email usr) b else [])"
        proof (cases "enabledOrAbsent emailNotificationsEnabled ?st")
          case True
          then have "s3 = (case sendMeetingReminder (u_email usr) ?title ?mins s2 of
                    (Throw e, x) \<Rightarrow> emit (ConsoleError (''Failed to send reminder email to '' @ u_email usr)) x
                  | (Ok _, x) \<Rightarrow> x)" by (simp add: s3_def)
          from caught_calm[where f = "sendMeetingReminder (u_email usr) ?title ?mins", OF _ this]
            sendMeetingReminder_calm[of "u_email usr" ?title ?mins s2]
          show ?thesis using True by auto
        next
          case False
          then show ?thesis by (simp add: s3_def)
        qed
        have st4: "\<exists>c. calm s3 s4 \<and> newNotifications s3 s4 = [] \<and> newEvents s3 s4 =
              (if enabledOrAbsent pushNotificationsEnabled ?st
               then attemptLog (SendToUser ?uid ''Meeting Reminder'' ?msg)
                      (''Failed to send push notification to '' @ ?uid) c else [])"
        proof (cases "enabledOrAbsent pushNotificationsEnabled ?st")
          case True
          then have "s4 = (case sendToUser ?uid ''Meeting Reminder'' ?msg s3 of
                    (Throw e, x) \<Rightarrow> emit (ConsoleError (''Failed to send push notification to '' @ ?uid)) x
                  | (Ok _, x) \<Rightarrow> x)" by (simp add: s4_def)
          from caught_calm[where f = "sendToUser ?uid ''Meeting Reminder'' ?msg", OF _ this]
            sendToUser_calm[of ?uid "''Meeting Reminder''" ?msg s3]
          show ?thesis using True by auto
        next
          case False
          then show ?thesis by (simp add: s4_def)
        qed
        from st3 obtain b2 where st3': "calm s2 s3 \<and> newNotifications s2 s3 = [] \<and> newEvents s2 s3 =
              (if enabledOrAbsent emailNotificationsEnabled ?st
               then attemptLog (SendMeetingReminder (u_email usr) ?title ?mins)
                      (''Failed to send reminder email to '' @ u_email usr) b2 else [])" by blast
        from st4 obtain c2' where st4': "calm s3 s4 \<and> newNotifications s3 s4 = [] \<and> newEvents s3 s4 =
              (if enabledOrAbsent pushNotificationsEnabled ?st
               then attemptLog (SendToUser ?uid ''Meeting Reminder'' ?msg)
                      (''Failed to send push notification to '' @ ?uid) c2' else [])" by blast
        note st34 = step_compose[OF st3' st4']
        from e2 Ok obtain b1 c1' where e2': "newEvents s1 s2 =
             (if enabledOrAbsent inAppNotificationsEnabled ?st
             then externalEvents (findUser ?uid s) ?st ?uid ''Meeting Reminder'' ?msg b1 c1'
             else [])" by auto
        have k12: "calm s s2" using calm_trans[OF d1(1) k2] .
        have ev12: "newEvents s s2 = newEvents s1 s2" using calm_compose(2)[OF d1(1) k2] d1(2) by simp
        have k: "calm s s4" using calm_trans[OF k12] st34 by blast
        have ev: "newEvents s s4 = newEvents s s2 @ newEvents s2 s4"
          using calm_compose(2)[OF k12] st34 by blast
        have nn: "newNotifications s s4 = newNotifications s s2"
          using calm_compose(3)[OF k12, of s4] st34 by simp
        have "newEvents s s' = ?E b1 c1' b2 c2'"
          using ev ev12 e2' st34 s' res by (simp add: directEvents_def)
        moreover have "dbHealthy s \<longrightarrow> res = Ok () \<and> ?N s'"
          using h2 nn s' res by simp
        ultimately show ?thesis using k s' by blast
      qed
    qed
  qed
  show "calm s s'" "\<exists>b1 c1 b2 c2. newEvents s s' = ?E b1 c1 b2 c2"
    "dbHealthy s \<Longrightarrow> res = Ok () \<and> ?N s'" using all by blast+
qed

lemma processParticipant_calm: "processParticipant lr pu s = (res, s') \<Longrightarrow> calm s s'"
proof -
  assume run: "processParticipant lr pu s = (res, s')"
  obtain p u where pu: "pu = (p, u)" by (cases pu)
  show "calm s s'"
  proof (cases "\<not> truthy (p_userId p) \<or> u = None")
    case True
    from processParticipant_skip[OF this, of lr s] run pu show ?thesis by simp
  next
    case False
    then obtain usr where "u = Some usr" "truthy (p_userId p)" by auto
    with run pu processParticipant_facts(1)[of lr p usr s res s'] show ?thesis by simp
  qed
qed


lemma processParticipants_calm:
  "processParticipants lr ps s = (res, s') \<Longrightarrow> calm s s'"
proof (induction ps arbitrary: s)
  case Nil
  then show ?case by simp
next
  case (Cons pu ps)
  obtain r1 s1 where c: "processParticipant lr pu s = (r1, s1)"
    by (cases "processParticipant lr pu s")
  note k = processParticipant_calm[OF c]
  show ?case
  proof (cases r1)
    case (Ok u)
    with Cons.prems c have "processParticipants lr ps s1 = (res, s')" by simp
    from Cons.IH[OF this] k show ?thesis by (rule calm_trans[rotated])
  next
    case (Throw e)
    with Cons.prems c k show ?thesis by simp
  qed
qed

lemma processParticipant_healthy:
  assumes "dbHealthy s" "processParticipant lr pu s = (res, s')"
  shows "res = Ok ()"
proof -
  obtain p u where pu: "pu = (p, u)" by (cases pu)
  show ?thesis
  proof (cases "\<not> truthy (p_userId p) \<or> u = None")
    case True
    from processParticipant_skip[OF this, of lr s] assms pu show ?thesis by simp
  next
    case False
    then obtain usr where "u = Some usr" "truthy (p_userId p)" by auto
    with assms pu processParticipant_facts(3)[of lr p usr s res s'] show ?thesis by simp
  qed
qed

lemma processParticipants_healthy:
  "dbHealthy s \<Longrightarrow> processParticipants lr ps s = (res, s') \<Longrightarrow> res = Ok ()"
proof (induction ps arbitrary: s)
  case Nil
  then show ?case by simp
next
  case (Cons pu ps)
  obtain r1 s1 where c: "processParticipant lr pu s = (r1, s1)"
    by (cases "processParticipant lr pu s")
  have r1: "r1 = Ok ()" using processParticipant_healthy[OF Cons.prems(1) c] .
  have h1: "dbHealthy s1" using calm_healthy[OF processParticipant_calm[OF c] Cons.prems(1)] .
  from Cons.prems(2) c r1 have "processParticipants lr ps s1 = (res, s')" by simp
  from Cons.IH[OF h1 this] show ?case .
qed

subsection \<open>Marking a reminder as sent\<close>

lemma fullySent_markSent [simp]: "fullySent (markSent t r)"
  by (simp add: fullySent_def markSent_def)

lemma r_id_markSent [simp]: "r_id (markSent t r) = r_id r"
  by (simp add: markSent_def)

lemma ids_map_markSent:
  "map r_id (map (\<lambda>r. if r_id r = rid then markSent t r else r) xs) = map r_id xs"
  by (induction xs) auto

lemma list_ex_map_markSent:
  "list_ex (\<lambda>r. r_id r = rid') (map (\<lambda>r. if r_id r = rid then markSent t r else r) xs)
     = list_ex (\<lambda>r. r_id r = rid') xs"
  by (induction xs) auto

lemma list_all_map_markSent:
  "list_all (\<lambda>r. r_id r \<noteq> rid' \<or> fullySent r) xs \<Longrightarrow>
   list_all (\<lambda>r. r_id r \<noteq> rid' \<or> fullySent r)
     (map (\<lambda>r. if r_id r = rid then markSent t r else r) xs)"
  by (induction xs) auto

lemma list_all_map_markSent_same:
  "list_all (\<lambda>r. r_id r \<noteq> rid \<or> fullySent r)
     (map (\<lambda>r. if r_id r = rid then markSent t r else r) xs)"
  by (induction xs) auto

lemma markedSent_map:
  assumes "markedSent rid' s"
    and rows: "tbl_meetingReminder s' =
      map (\<lambda>r. if r_id r = rid then markSent t r else r) (tbl_meetingReminder s)"
  shows "markedSent rid' s'"
proof -
  from assms(1) have a: "list_ex (\<lambda>r. r_id r = rid') (tbl_meetingReminder s)"
    and b: "list_all (\<lambda>r. r_id r \<noteq> rid' \<or> fullySent r) (tbl_meetingReminder s)"
    unfolding markedSent_def by blast+
  have "list_ex (\<lambda>r. r_id r = rid') (tbl_meetingReminder s')"
    unfolding rows list_ex_map_markSent by (rule a)
  moreover have "list_all (\<lambda>r. r_id r \<noteq> rid' \<or> fullySent r) (tbl_meetingReminder s')"
    unfolding rows by (rule list_all_map_markSent[OF b])
  ultimately show ?thesis unfolding markedSent_def by blast
qed

lemma updateReminderSent_facts:
  assumes run: "updateReminderSent rid s = (res, s')"
  shows "evolves s s'" "newEvents s s' = []" "newNotifications s s' = []"
    "res = Ok () \<Longrightarrow> markedSent rid s'"
    "dbHealthy s \<Longrightarrow> list_ex (\<lambda>r. r_id r = rid) (tbl_meetingReminder s) \<Longrightarrow> res = Ok ()"
    "markedSent rid' s \<Longrightarrow> markedSent rid' s'"
    "map r_id (tbl_meetingReminder s') = map r_id (tbl_meetingReminder s)"
proof -
  obtain t1 s1 where c1: "dbCall s = (t1, s1)" by (cases "dbCall s")
  note d1 = dbCall_calm[OF c1]
  have rows1: "tbl_meetingReminder s1 = tbl_meetingReminder s" using d1(1) by (simp add: calm_def)
  consider (thr) "res = Throw ''meetingReminder.update''" "s' = s1" "t1"
    | (missing) "res = Throw ''Record to update not found''" "s' = s1"
        "\<not> list_ex (\<lambda>r. r_id r = rid) (tbl_meetingReminder s)"
    | (ok) "res = Ok ()" "\<not> t1" "list_ex (\<lambda>r. r_id r = rid) (tbl_meetingReminder s)"
        "s' = s1\<lparr>tbl_meetingReminder :=
                 map (\<lambda>r. if r_id r = rid then markSent (wallclock s) r else r) (tbl_meetingReminder s1)\<rparr>"
    using run c1 rows1 by (auto simp: updateReminderSent_def Let_def split: if_splits)
  then have all: "evolves s s' \<and> newEvents s s' = [] \<and> newNotifications s s' = []
    \<and> (res = Ok () \<longrightarrow> markedSent rid s')
    \<and> (dbHealthy s \<longrightarrow> list_ex (\<lambda>r. r_id r = rid) (tbl_meetingReminder s) \<longrightarrow> res = Ok ())
    \<and> (markedSent rid' s \<longrightarrow> markedSent rid' s')
    \<and> map r_id (tbl_meetingReminder s') = map r_id (tbl_meetingReminder s)"
  proof cases
    case thr
    then show ?thesis using d1 rows1 by (auto simp: calm_def markedSent_def)
  next
    case missing
    then show ?thesis using d1 rows1 by (auto simp: calm_def markedSent_def)
  next
    case ok
    have rows': "tbl_meetingReminder s' =
        map (\<lambda>r. if r_id r = rid then markSent (wallclock s) r else r) (tbl_meetingReminder s)"
      using ok(4) rows1 by simp
    have ev: "evolves s s'" "newEvents s s' = []" "newNotifications s s' = []"
      using d1 ok(4) by (auto simp: calm_def evolves_def newEvents_def newNotifications_def dbHealthy_def)
    have "list_ex (\<lambda>r. r_id r = rid) (tbl_meetingReminder s')"
      unfolding rows' list_ex_map_markSent by (rule ok(3))
    moreover have "list_all (\<lambda>r. r_id r \<noteq> rid \<or> fullySent r) (tbl_meetingReminder s')"
      unfolding rows' by (rule list_all_map_markSent_same)
    ultimately have m: "markedSent rid s'" unfolding markedSent_def by blast
    have ids: "map r_id (tbl_meetingReminder s') = map r_id (tbl_meetingReminder s)"
      unfolding rows' by (rule ids_map_markSent)
    show ?thesis using ev m ids ok(1) markedSent_map[OF _ rows'] by blast
  qed
  show "evolves s s'" "newEvents s s' = []" "newNotifications s s' = []"
    "res = Ok () \<Longrightarrow> markedSent rid s'"
    "dbHealthy s \<Longrightarrow> list_ex (\<lambda>r. r_id r = rid) (tbl_meetingReminder s) \<Longrightarrow> res = Ok ()"
    "markedSent rid' s \<Longrightarrow> markedSent rid' s'"
    "map r_id (tbl_meetingReminder s') = map r_id (tbl_meetingReminder s)"
    using all by blast+
qed


lemma emit_rows [simp]: "tbl_meetingReminder (emit e s) = tbl_meetingReminder s"
  by (simp add: emit_def)

lemma markedSent_emit [simp]: "markedSent rid (emit e s) = markedSent rid s"
  by (simp add: markedSent_def)

lemma markedSent_calm: "calm s s' \<Longrightarrow> markedSent rid s' = markedSent rid s"
  by (simp add: markedSent_def calm_def)

lemma processReminder_facts:
  fixes lr s
  defines "rid \<equiv> r_id (lr_reminder lr)"
  defines "s' \<equiv> processReminder lr s"
  shows "evolves s s'"
    "map r_id (tbl_meetingReminder s') = map r_id (tbl_meetingReminder s)"
    "markedSent rid' s \<Longrightarrow> markedSent rid' s'"
    "markedSent rid s' \<or> failedToProcess rid \<in> set (newEvents s s')"
    "dbHealthy s \<Longrightarrow> list_ex (\<lambda>r. r_id r = rid) (tbl_meetingReminder s) \<Longrightarrow> markedSent rid s'"
    "\<exists>res s1 tail. processParticipants lr (lr_participants lr) s = (res, s1)
        \<and> newEvents s s' = newEvents s s1 @ tail \<and> (tail = [] \<or> tail = [failedToProcess rid])
        \<and> newNotifications s s' = newNotifications s s1"
proof -
  obtain r1 s1 where c1: "processParticipants lr (lr_participants lr) s = (r1, s1)"
    by (cases "processParticipants lr (lr_participants lr) s")
  note k1 = processParticipants_calm[OF c1]
  have rows1: "tbl_meetingReminder s1 = tbl_meetingReminder s" using k1 by (simp add: calm_def)
  have all: "evolves s s'
    \<and> map r_id (tbl_meetingReminder s') = map r_id (tbl_meetingReminder s)
    \<and> (markedSent rid' s \<longrightarrow> markedSent rid' s')
    \<and> (markedSent rid s' \<or> failedToProcess rid \<in> set (newEvents s s'))
    \<and> (dbHealthy s \<longrightarrow> list_ex (\<lambda>r. r_id r = rid) (tbl_meetingReminder s) \<longrightarrow> markedSent rid s')
    \<and> (\<exists>tail. newEvents s s' = newEvents s s1 @ tail \<and> (tail = [] \<or> tail = [failedToProcess rid])
        \<and> newNotifications s s' = newNotifications s s1)"
  proof (cases r1)
    case (Throw e)
    then have s': "s' = emit (failedToProcess rid) s1"
      using c1 by (simp add: s'_def processReminder_def rid_def)
    have k: "calm s s'" using calm_trans[OF k1 emit_calm(1)[of s1]] s' by simp
    have ev: "newEvents s s' = newEvents s s1 @ [failedToProcess rid]"
      using calm_compose(2)[OF k1 emit_calm(1)[of s1 "failedToProcess rid"]] emit_calm(2)[of s1] s'
      by simp
    have nn: "newNotifications s s' = newNotifications s s1"
      using calm_compose(3)[OF k1 emit_calm(1)[of s1 "failedToProcess rid"]] emit_calm(3)[of s1] s'
      by simp
    have "\<not> dbHealthy s" using processParticipants_healthy[OF _ c1] Throw by auto
    then show ?thesis using k ev nn markedSent_calm[OF k] by (auto simp: calm_def)
  next
    case (Ok u)
    obtain r2 s2 where c2: "updateReminderSent rid s1 = (r2, s2)"
      by (cases "updateReminderSent rid s1")
    note uf = updateReminderSent_facts[OF c2]
    have e12: "evolves s s2" using evolves_trans[OF calm_evolves[OF k1] uf(1)] .
    have ev12: "newEvents s s2 = newEvents s s1"
      using newEvents_trans[OF calm_evolves[OF k1] uf(1)] uf(2) by simp
    have nn12: "newNotifications s s2 = newNotifications s s1"
      using newNotifications_trans[OF calm_evolves[OF k1] uf(1)] uf(3) by simp
    have ids: "map r_id (tbl_meetingReminder s2) = map r_id (tbl_meetingReminder s)"
      using uf(7) rows1 by simp
    have pres: "markedSent rid' s \<longrightarrow> markedSent rid' s2"
      using uf(6)[of rid'] markedSent_calm[OF k1] by simp
    have h: "dbHealthy s \<longrightarrow> list_ex (\<lambda>r. r_id r = rid) (tbl_meetingReminder s) \<longrightarrow> r2 = Ok ()"
      using uf(5) calm_healthy[OF k1] rows1 by simp
    show ?thesis
    proof (cases r2)
      case ok2: (Ok u2)
      then have s': "s' = s2" using c1 c2 Ok by (simp add: s'_def processReminder_def rid_def)
      show ?thesis using e12 ev12 nn12 ids pres uf(4) ok2 s' by auto
    next
      case (Throw e)
      then have s': "s' = emit (failedToProcess rid) s2"
        using c1 c2 Ok by (simp add: s'_def processReminder_def rid_def)
      have e: "evolves s s'" using evolves_trans[OF e12 calm_evolves[OF emit_calm(1)[of s2]]] s' by simp
      have ev: "newEvents s s' = newEvents s s1 @ [failedToProcess rid]"
        using newEvents_trans[OF e12 calm_evolves[OF emit_calm(1)[of s2 "failedToProcess rid"]]]
          emit_calm(2)[of s2] s' ev12 by simp
      have nn: "newNotifications s s' = newNotifications s s1"
        using newNotifications_trans[OF e12 calm_evolves[OF emit_calm(1)[of s2 "failedToProcess rid"]]]
          emit_calm(3)[of s2] s' nn12 by simp
      show ?thesis using e ev nn ids pres h Throw s' by auto
    qed
  qed
  show "evolves s s'"
    "map r_id (tbl_meetingReminder s') = map r_id (tbl_meetingReminder s)"
    "markedSent rid' s \<Longrightarrow> markedSent rid' s'"
    "markedSent rid s' \<or> failedToProcess rid \<in> set (newEvents s s')"
    "dbHealthy s \<Longrightarrow> list_ex (\<lambda>r. r_id r = rid) (tbl_meetingReminder s) \<Longrightarrow> markedSent rid s'"
    "\<exists>res s1 tail. processParticipants lr (lr_participants lr) s = (res, s1)
        \<and> newEvents s s' = newEvents s s1 @ tail \<and> (tail = [] \<or> tail = [failedToProcess rid])
        \<and> newNotifications s s' = newNotifications s s1"
    using all c1 by blast+
qed


lemma evolves_healthy: "evolves s s' \<Longrightarrow> dbHealthy s \<Longrightarrow> dbHealthy s'"
  by (simp add: evolves_def)

lemma newEvents_mono:
  "evolves a b \<Longrightarrow> evolves b c \<Longrightarrow> e \<in> set (newEvents a b) \<Longrightarrow> e \<in> set (newEvents a c)"
  using newEvents_trans[of a b c] by simp

lemma newEvents_mono2:
  "evolves a b \<Longrightarrow> evolves b c \<Longrightarrow> e \<in> set (newEvents b c) \<Longrightarrow> e \<in> set (newEvents a c)"
  using newEvents_trans[of a b c] by simp

lemma processBatch_facts:
  "evolves s (processBatch rs s)"
  "map r_id (tbl_meetingReminder (processBatch rs s)) = map r_id (tbl_meetingReminder s)"
  "markedSent rid' s \<Longrightarrow> markedSent rid' (processBatch rs s)"
proof (induction rs arbitrary: s)
  case Nil
  { case 1 show ?case by simp }
  { case 2 show ?case by simp }
  { case 3 then show ?case by simp }
next
  case (Cons lr rs)
  { case 1 show ?case
      using evolves_trans[OF processReminder_facts(1)[of s lr] Cons.IH(1)[of "processReminder lr s"]]
      by simp }
  { case 2 show ?case
      using processReminder_facts(2)[of lr s] Cons.IH(2)[of "processReminder lr s"] by simp }
  { case 3 then show ?case
      using processReminder_facts(3)[of rid' s lr] Cons.IH(3)[of "processReminder lr s"] by simp }
qed

lemma processBatch_attempts:
  "lr \<in> set rs \<Longrightarrow>
     markedSent (r_id (lr_reminder lr)) (processBatch rs s)
     \<or> failedToProcess (r_id (lr_reminder lr)) \<in> set (newEvents s (processBatch rs s))"
proof (induction rs arbitrary: s)
  case Nil
  then show ?case by simp
next
  case (Cons x rs)
  let ?s1 = "processReminder x s"
  have e1: "evolves s ?s1" by (rule processReminder_facts(1))
  have e2: "evolves ?s1 (processBatch rs ?s1)" by (rule processBatch_facts(1))
  show ?case
  proof (cases "lr = x")
    case True
    from processReminder_facts(4)[of x s]
    show ?thesis
    proof
      assume "markedSent (r_id (lr_reminder x)) ?s1"
      then show ?thesis using processBatch_facts(3)[of _ ?s1 rs] True by simp
    next
      assume "failedToProcess (r_id (lr_reminder x)) \<in> set (newEvents s ?s1)"
      then show ?thesis using newEvents_mono[OF e1 e2] True by simp
    qed
  next
    case False
    with Cons.prems have "lr \<in> set rs" by simp
    from Cons.IH[OF this, of ?s1] show ?thesis
      using newEvents_mono2[OF e1 e2] by auto
  qed
qed

lemma processBatch_healthy:
  "dbHealthy s \<Longrightarrow> lr \<in> set rs \<Longrightarrow>
     list_ex (\<lambda>r. r_id r = r_id (lr_reminder lr)) (tbl_meetingReminder s) \<Longrightarrow>
     markedSent (r_id (lr_reminder lr)) (processBatch rs s)"
proof (induction rs arbitrary: s)
  case Nil
  then show ?case by simp
next
  case (Cons x rs)
  let ?s1 = "processReminder x s"
  have h1: "dbHealthy ?s1" using evolves_healthy[OF processReminder_facts(1) Cons.prems(1)] .
  show ?case
  proof (cases "lr = x")
    case True
    have "markedSent (r_id (lr_reminder x)) ?s1"
      using processReminder_facts(5)[of s x] Cons.prems True by simp
    then show ?thesis using processBatch_facts(3)[of _ ?s1 rs] True by simp
  next
    case False
    with Cons.prems have m: "lr \<in> set rs" by simp
    have "list_ex (\<lambda>r. r_id r = r_id (lr_reminder lr)) (tbl_meetingReminder ?s1)"
      using Cons.prems(3) processReminder_facts(2)[of x s]
      unfolding list_ex_iff by (metis (mono_tags, lifting) image_iff list.set_map)
    from Cons.IH[OF h1 m this] show ?thesis by simp
  qed
qed

lemma findDueReminders_tables:
  "tbl_meeting s' = tbl_meeting s \<Longrightarrow> tbl_meetingParticipant s' = tbl_meetingParticipant s \<Longrightarrow>
   tbl_user s' = tbl_user s \<Longrightarrow> tbl_meetingReminder s' = tbl_meetingReminder s \<Longrightarrow>
   findDueReminders now s' = findDueReminders now s"
proof -
  assume a: "tbl_meeting s' = tbl_meeting s" "tbl_meetingParticipant s' = tbl_meetingParticipant s"
    "tbl_user s' = tbl_user s" "tbl_meetingReminder s' = tbl_meetingReminder s"
  have 1: "owningMeeting s' = owningMeeting s"
    by (rule ext) (simp add: owningMeeting_def findMeeting_def a)
  have 2: "includeUser s' = includeUser s"
    by (rule ext) (simp add: includeUser_def findUser_def a cong: option.case_cong)
  have 3: "includeMeeting s' = includeMeeting s"
    by (rule ext) (simp add: includeMeeting_def 1 2 a cong: option.case_cong)
  have 4: "isDue now s' = isDue now s"
    by (rule ext) (simp add: isDue_def 1 cong: option.case_cong)
  show ?thesis by (simp add: findDueReminders_def 3 4 a)
qed

lemma findDueReminders_calm: "calm s s' \<Longrightarrow> findDueReminders now s' = findDueReminders now s"
  by (rule findDueReminders_tables) (simp_all add: calm_def evolves_def)

lemma processReminders_unfold:
  assumes c: "dbCall s = (t, s1)"
  shows "processReminders s =
     (if t then (Throw ''meetingReminder.findMany'', s1)
      else (Ok (),
        if length (findDueReminders (wallclock s) s) > 0
        then emit (ConsoleLog (''Processed '' @ show_nat (length (findDueReminders (wallclock s) s))
                    @ '' reminders''))
               (processBatch (findDueReminders (wallclock s) s) s1)
        else processBatch (findDueReminders (wallclock s) s) s1))"
  using c findDueReminders_calm[OF dbCall_calm(1)[OF c], of "wallclock s"]
  by (simp add: processReminders_def Let_def)

lemma processReminders_facts:
  assumes run: "processReminders s = (res, s')"
  shows "evolves s s'"
    "\<not> fst (dbCall s) \<Longrightarrow> res = Ok ()"
    "res = Ok () \<Longrightarrow> \<exists>s1. calm s s1 \<and> newEvents s s1 = [] \<and>
        calm (processBatch (findDueReminders (wallclock s) s) s1) s' \<and>
        (\<forall>e\<in>set (newEvents (processBatch (findDueReminders (wallclock s) s) s1) s').
            \<exists>x. e = ConsoleLog x)"
    "res \<noteq> Ok () \<Longrightarrow> calm s s' \<and> newEvents s s' = []"
proof -
  obtain t s1 where c: "dbCall s = (t, s1)" by (cases "dbCall s")
  note d = dbCall_calm[OF c]
  note u = processReminders_unfold[OF c]
  let ?b = "processBatch (findDueReminders (wallclock s) s) s1"
  have eb: "evolves s1 ?b" by (rule processBatch_facts(1))
  have e1: "evolves s s1" using d(1) by (rule calm_evolves)
  have all: "evolves s s' \<and> (\<not> t \<longrightarrow> res = Ok ()) \<and>
     (res = Ok () \<longrightarrow> calm ?b s' \<and> (\<forall>e\<in>set (newEvents ?b s'). \<exists>x. e = ConsoleLog x)) \<and>
     (res \<noteq> Ok () \<longrightarrow> calm s s' \<and> newEvents s s' = [])"
  proof (cases t)
    case True
    with run u have "res = Throw ''meetingReminder.findMany''" "s' = s1" by auto
    then show ?thesis using e1 d True by auto
  next
    case False
    with run u have r: "res = Ok ()" by auto
    have "calm ?b s' \<and> (\<forall>e\<in>set (newEvents ?b s'). \<exists>x. e = ConsoleLog x)"
    proof (cases "length (findDueReminders (wallclock s) s) > 0")
      case True
      with run u False have "s' = emit (ConsoleLog (''Processed '' @
          show_nat (length (findDueReminders (wallclock s) s)) @ '' reminders'')) ?b" by auto
      then show ?thesis using emit_calm(1,2)[of ?b] by simp
    next
      case nz: False
      with run u False have "s' = ?b" by auto
      then show ?thesis by simp
    qed
    then show ?thesis
      using r False evolves_trans[OF e1 evolves_trans[OF eb calm_evolves[of ?b s']]] by auto
  qed
  show "evolves s s'" "\<not> fst (dbCall s) \<Longrightarrow> res = Ok ()"
    "res = Ok () \<Longrightarrow> \<exists>s1. calm s s1 \<and> newEvents s s1 = [] \<and>
        calm (processBatch (findDueReminders (wallclock s) s) s1) s' \<and>
        (\<forall>e\<in>set (newEvents (processBatch (findDueReminders (wallclock s) s) s1) s').
            \<exists>x. e = ConsoleLog x)"
    "res \<noteq> Ok () \<Longrightarrow> calm s s' \<and> newEvents s s' = []"
    using all c d by auto
qed

subsection \<open>Selection\<close>

lemma includeMeeting_Some:
  assumes "includeMeeting s r = Some lr"
  shows "lr_reminder lr = r \<and> owningMeeting s r = Some (lr_meeting lr)
     \<and> lr_participants lr = map (includeUser s)
           (filter (\<lambda>p. p_meetingId p = m_id (lr_meeting lr)) (tbl_meetingParticipant s))"
proof (cases "owningMeeting s r")
  case None
  with assms show ?thesis by (simp add: includeMeeting_def)
next
  case (Some m)
  with assms have "lr = \<lparr>lr_reminder = r, lr_meeting = m,
         lr_participants = map (includeUser s)
           (filter (\<lambda>p. p_meetingId p = m_id m) (tbl_meetingParticipant s))\<rparr>"
    by (simp add: includeMeeting_def)
  with Some show ?thesis by simp
qed

lemma includeMeeting_due:
  "isDue now s r \<Longrightarrow> \<exists>lr. includeMeeting s r = Some lr \<and> lr_reminder lr = r"
  by (auto simp: isDue_def includeMeeting_def split: option.splits)

lemma map_filter_all_some:
  "\<forall>x\<in>set xs. \<exists>y. f x = Some y \<and> g y = x \<Longrightarrow> map g (List.map_filter f xs) = xs"
  by (induction xs) (auto simp: List.map_filter_simps)

lemma findDue_reminders:
  "map lr_reminder (findDueReminders now s) = take 100 (filter (isDue now s) (tbl_meetingReminder s))"
  unfolding findDueReminders_def
proof (rule map_filter_all_some, rule ballI)
  fix x assume "x \<in> set (take 100 (filter (isDue now s) (tbl_meetingReminder s)))"
  then have "isDue now s x" by (auto dest: in_set_takeD)
  then show "\<exists>y. includeMeeting s x = Some y \<and> lr_reminder y = x"
    using includeMeeting_due by blast
qed

lemma findDue_member:
  assumes "lr \<in> set (findDueReminders now s)"
  shows "includeMeeting s (lr_reminder lr) = Some lr" "isDue now s (lr_reminder lr)"
    "lr_reminder lr \<in> set (tbl_meetingReminder s)"
proof -
  from assms obtain r where r: "r \<in> set (take 100 (filter (isDue now s) (tbl_meetingReminder s)))"
    and inc: "includeMeeting s r = Some lr"
    by (auto simp: findDueReminders_def List.map_filter_def)
  from includeMeeting_Some[OF inc] have eq: "lr_reminder lr = r" by simp
  from r have "r \<in> set (filter (isDue now s) (tbl_meetingReminder s))" by (rule in_set_takeD)
  then show "includeMeeting s (lr_reminder lr) = Some lr" "isDue now s (lr_reminder lr)"
    "lr_reminder lr \<in> set (tbl_meetingReminder s)"
    using inc eq by auto
qed

lemma isDue_spec: "isDue now s r \<longleftrightarrow>
   (scheduledFor r \<le> now + 60 * 1000 \<and> sentAt r = None \<and>
      (\<exists>m. owningMeeting s r = Some m \<and> \<not> isCancelled m \<and> startTime m > now))"
  by (auto simp: isDue_def split: option.splits)

subsection \<open>The concrete store, evaluated\<close>

lemmas store_defs = store0_def alice_def bob_def standup_def pAlice_def pBob_def pCarol_def
  rem15_def rem5_def loaded15_def failing_def passing_def

lemma findDue_store0: "findDueReminders 0 store0 = [loaded15]"
  by (simp add: findDueReminders_def isDue_def owningMeeting_def findMeeting_def
      includeMeeting_def includeUser_def findUser_def List.map_filter_simps store_defs)

subsection \<open>Which pushes a run can make\<close>

lemma attemptLog_push:
  "e \<in> set (attemptLog c msg b) \<Longrightarrow> isPushTo uid e \<Longrightarrow> (\<exists>t m. c = SendToUser uid t m)"
  by (cases c) (auto simp: attemptLog_def split: if_splits)

lemma externalEvents_push:
  "e \<in> set (externalEvents usr st target title msg b c) \<Longrightarrow> isPushTo uid e \<Longrightarrow>
     uid = target \<and> enabledOrAbsent pushNotificationsEnabled st"
  by (auto simp: externalEvents_def split: option.splits if_splits dest!: attemptLog_push)

lemma directEvents_push:
  "e \<in> set (directEvents st usr title mins b c) \<Longrightarrow> isPushTo uid e \<Longrightarrow>
     uid = u_id usr \<and> enabledOrAbsent pushNotificationsEnabled st"
  by (auto simp: directEvents_def split: if_splits dest!: attemptLog_push)

lemma processParticipant_nopush:
  assumes run: "processParticipant lr pu s = (res, s')"
    and off: "findSettings uid s = Some st" "\<not> pushNotificationsEnabled st"
    and e: "e \<in> set (newEvents s s')"
  shows "\<not> isPushTo uid e"
proof
  assume push: "isPushTo uid e"
  obtain p u where pu: "pu = (p, u)" by (cases pu)
  show False
  proof (cases "\<not> truthy (p_userId p) \<or> u = None")
    case True
    from processParticipant_skip[OF this, of lr s] run pu e show False by simp
  next
    case False
    then obtain usr where u: "u = Some usr" and l: "truthy (p_userId p)" by auto
    from run pu u have r: "processParticipant lr (p, Some usr) s = (res, s')" by simp
    from processParticipant_facts(2)[OF r l] obtain b1 c1 b2 c2 where
      ev: "newEvents s s' =
       (case res of Throw _ \<Rightarrow> []
        | Ok _ \<Rightarrow>
            (if enabledOrAbsent inAppNotificationsEnabled (findSettings (u_id usr) s)
             then externalEvents (findUser (u_id usr) s) (findSettings (u_id usr) s) (u_id usr)
                    ''Meeting Reminder''
                    (reminderMessage (m_title (lr_meeting lr)) (minutesBefore (lr_reminder lr))) b1 c1
             else [])
            @ directEvents (findSettings (u_id usr) s) usr (m_title (lr_meeting lr))
                (minutesBefore (lr_reminder lr)) b2 c2)" by blast
    from e ev push have "uid = u_id usr \<and>
        enabledOrAbsent pushNotificationsEnabled (findSettings (u_id usr) s)"
      by (cases res) (auto split: if_splits dest: externalEvents_push directEvents_push)
    with off show False by (simp add: enabledOrAbsent_def)
  qed
qed

lemma processParticipants_nopush:
  "processParticipants lr ps s = (res, s') \<Longrightarrow> findSettings uid s = Some st \<Longrightarrow>
   \<not> pushNotificationsEnabled st \<Longrightarrow> e \<in> set (newEvents s s') \<Longrightarrow> \<not> isPushTo uid e"
proof (induction ps arbitrary: s)
  case Nil
  then show ?case by simp
next
  case (Cons pu ps)
  obtain r1 s1 where c: "processParticipant lr pu s = (r1, s1)"
    by (cases "processParticipant lr pu s")
  note k = processParticipant_calm[OF c]
  show ?case
  proof (cases r1)
    case (Throw x)
    with Cons.prems(1) c have "s' = s1" by simp
    with processParticipant_nopush[OF c Cons.prems(2,3)] Cons.prems(4) show ?thesis by simp
  next
    case (Ok x)
    with Cons.prems(1) c have r: "processParticipants lr ps s1 = (res, s')" by simp
    have st1: "findSettings uid s1 = Some st" using calm_lookups(1)[OF k] Cons.prems(2) by simp
    have "newEvents s s' = newEvents s s1 @ newEvents s1 s'"
      using calm_compose(2)[OF k processParticipants_calm[OF r]] .
    with Cons.prems(4) consider "e \<in> set (newEvents s s1)" | "e \<in> set (newEvents s1 s')" by auto
    then show ?thesis
    proof cases
      case 1
      with processParticipant_nopush[OF c Cons.prems(2,3)] show ?thesis by simp
    next
      case 2
      with Cons.IH[OF r st1 Cons.prems(3)] show ?thesis by simp
    qed
  qed
qed

lemma processReminder_nopush:
  assumes off: "findSettings uid s = Some st" "\<not> pushNotificationsEnabled st"
    and e: "e \<in> set (newEvents s (processReminder lr s))"
  shows "\<not> isPushTo uid e"
proof -
  from processReminder_facts(6)[of lr s] obtain res s1 tail where
    r: "processParticipants lr (lr_participants lr) s = (res, s1)"
    and ev: "newEvents s (processReminder lr s) = newEvents s s1 @ tail"
    and tail: "tail = [] \<or> tail = [failedToProcess (r_id (lr_reminder lr))]" by blast
  from e ev consider "e \<in> set (newEvents s s1)" | "e \<in> set tail" by auto
  then show ?thesis
  proof cases
    case 1
    with processParticipants_nopush[OF r off] show ?thesis by simp
  next
    case 2
    with tail show ?thesis by (auto simp: failedToProcess_def)
  qed
qed

lemma processBatch_nopush:
  "findSettings uid s = Some st \<Longrightarrow> \<not> pushNotificationsEnabled st \<Longrightarrow>
   e \<in> set (newEvents s (processBatch rs s)) \<Longrightarrow> \<not> isPushTo uid e"
proof (induction rs arbitrary: s)
  case Nil
  then show ?case by simp
next
  case (Cons lr rs)
  let ?s1 = "processReminder lr s"
  have e1: "evolves s ?s1" by (rule processReminder_facts(1))
  have e2: "evolves ?s1 (processBatch rs ?s1)" by (rule processBatch_facts(1))
  have st1: "findSettings uid ?s1 = Some st" using evolves_lookups(1)[OF e1] Cons.prems(1) by simp
  have "newEvents s (processBatch (lr # rs) s) = newEvents s ?s1 @ newEvents ?s1 (processBatch rs ?s1)"
    using newEvents_trans[OF e1 e2] by simp
  with Cons.prems(3) consider "e \<in> set (newEvents s ?s1)"
    | "e \<in> set (newEvents ?s1 (processBatch rs ?s1))" by auto
  then show ?case
  proof cases
    case 1
    with processReminder_nopush[OF Cons.prems(1,2)] show ?thesis by simp
  next
    case 2
    with Cons.IH[OF st1 Cons.prems(2)] show ?thesis by simp
  qed
qed

lemma processReminders_split:
  assumes run: "processReminders s = (Ok (), s')"
  obtains s1 where "calm s s1" "newEvents s s1 = []"
    "calm (processBatch (findDueReminders (wallclock s) s) s1) s'"
    "newEvents s s' = newEvents s1 (processBatch (findDueReminders (wallclock s) s) s1)
        @ newEvents (processBatch (findDueReminders (wallclock s) s) s1) s'"
    "\<forall>e\<in>set (newEvents (processBatch (findDueReminders (wallclock s) s) s1) s'). \<exists>x. e = ConsoleLog x"
proof -
  from processReminders_facts(3)[OF run] obtain s1 where
    a: "calm s s1" "newEvents s s1 = []"
    "calm (processBatch (findDueReminders (wallclock s) s) s1) s'"
    "\<forall>e\<in>set (newEvents (processBatch (findDueReminders (wallclock s) s) s1) s'). \<exists>x. e = ConsoleLog x"
    by blast
  let ?b = "processBatch (findDueReminders (wallclock s) s) s1"
  have e1: "evolves s s1" using a(1) by (rule calm_evolves)
  have e2: "evolves s1 ?b" by (rule processBatch_facts(1))
  have e3: "evolves ?b s'" using a(3) by (rule calm_evolves)
  have "newEvents s s' = newEvents s s1 @ newEvents s1 s'"
    using newEvents_trans[OF e1 evolves_trans[OF e2 e3]] .
  also have "newEvents s1 s' = newEvents s1 ?b @ newEvents ?b s'"
    using newEvents_trans[OF e2 e3] .
  finally have "newEvents s s' = newEvents s1 ?b @ newEvents ?b s'" using a(2) by simp
  with a that show ?thesis by blast
qed

lemma processReminders_nopush:
  assumes run: "processReminders s = (res, s')"
    and off: "findSettings uid s = Some st" "\<not> pushNotificationsEnabled st"
    and e: "e \<in> set (newEvents s s')"
  shows "\<not> isPushTo uid e"
proof (cases res)
  case (Throw x)
  with processReminders_facts(4)[OF run] e show ?thesis by simp
next
  case (Ok x)
  with run have r: "processReminders s = (Ok (), s')" by simp
  from r obtain s1 where a: "calm s s1"
    "newEvents s s' = newEvents s1 (processBatch (findDueReminders (wallclock s) s) s1)
        @ newEvents (processBatch (findDueReminders (wallclock s) s) s1) s'"
    "\<forall>e\<in>set (newEvents (processBatch (findDueReminders (wallclock s) s) s1) s'). \<exists>x. e = ConsoleLog x"
    by (rule processReminders_split)
  have st1: "findSettings uid s1 = Some st" using calm_lookups(1)[OF a(1)] off(1) by simp
  from e a(2) consider "e \<in> set (newEvents s1 (processBatch (findDueReminders (wallclock s) s) s1))"
    | "e \<in> set (newEvents (processBatch (findDueReminders (wallclock s) s) s1) s')" by auto
  then show ?thesis
  proof cases
    case 1
    with processBatch_nopush[OF st1 off(2)] show ?thesis by simp
  next
    case 2
    with a(3) show ?thesis by auto
  qed
qed


subsection \<open>What a healthy store guarantees each linked participant\<close>

lemma in_attemptLog [simp]: "Invoke c b \<in> set (attemptLog c msg b)"
  by (simp add: attemptLog_def)

lemma processParticipant_delivers:
  assumes h: "dbHealthy s" and run: "processParticipant lr (p, Some usr) s = (res, s')"
    and l: "truthy (p_userId p)"
  shows "enabledOrAbsent emailNotificationsEnabled (findSettings (u_id usr) s) \<longrightarrow>
      (\<exists>b. Invoke (SendMeetingReminder (u_email usr) (m_title (lr_meeting lr))
              (minutesBefore (lr_reminder lr))) b \<in> set (newEvents s s'))"
    "enabledOrAbsent pushNotificationsEnabled (findSettings (u_id usr) s) \<longrightarrow>
      (\<exists>c. Invoke (SendToUser (u_id usr) ''Meeting Reminder''
              (reminderMessage (m_title (lr_meeting lr)) (minutesBefore (lr_reminder lr)))) c
            \<in> set (newEvents s s'))"
    "enabledOrAbsent inAppNotificationsEnabled (findSettings (u_id usr) s) \<longrightarrow>
      (\<exists>n\<in>set (newNotifications s s'). n_userId n = u_id usr \<and> n_type n = MEETING_REMINDER
          \<and> relatedMeetingId n = Some (m_id (lr_meeting lr)))"
proof -
  note f = processParticipant_facts[OF run l]
  from f(3)[OF h] have ok: "res = Ok ()" by simp
  from f(2) ok obtain b1 c1 b2 c2 where ev: "newEvents s s' =
            (if enabledOrAbsent inAppNotificationsEnabled (findSettings (u_id usr) s)
             then externalEvents (findUser (u_id usr) s) (findSettings (u_id usr) s) (u_id usr)
                    ''Meeting Reminder''
                    (reminderMessage (m_title (lr_meeting lr)) (minutesBefore (lr_reminder lr))) b1 c1
             else [])
            @ directEvents (findSettings (u_id usr) s) usr (m_title (lr_meeting lr))
                (minutesBefore (lr_reminder lr)) b2 c2" by auto
  show "enabledOrAbsent emailNotificationsEnabled (findSettings (u_id usr) s) \<longrightarrow>
      (\<exists>b. Invoke (SendMeetingReminder (u_email usr) (m_title (lr_meeting lr))
              (minutesBefore (lr_reminder lr))) b \<in> set (newEvents s s'))"
  proof
    assume "enabledOrAbsent emailNotificationsEnabled (findSettings (u_id usr) s)"
    then have "Invoke (SendMeetingReminder (u_email usr) (m_title (lr_meeting lr))
              (minutesBefore (lr_reminder lr))) b2 \<in> set (newEvents s s')"
      unfolding ev by (simp add: directEvents_def)
    then show "\<exists>b. Invoke (SendMeetingReminder (u_email usr) (m_title (lr_meeting lr))
              (minutesBefore (lr_reminder lr))) b \<in> set (newEvents s s')" by blast
  qed
  show "enabledOrAbsent pushNotificationsEnabled (findSettings (u_id usr) s) \<longrightarrow>
      (\<exists>c. Invoke (SendToUser (u_id usr) ''Meeting Reminder''
              (reminderMessage (m_title (lr_meeting lr)) (minutesBefore (lr_reminder lr)))) c
            \<in> set (newEvents s s'))"
  proof
    assume "enabledOrAbsent pushNotificationsEnabled (findSettings (u_id usr) s)"
    then have "Invoke (SendToUser (u_id usr) ''Meeting Reminder''
              (reminderMessage (m_title (lr_meeting lr)) (minutesBefore (lr_reminder lr)))) c2
            \<in> set (newEvents s s')"
      unfolding ev by (simp add: directEvents_def)
    then show "\<exists>c. Invoke (SendToUser (u_id usr) ''Meeting Reminder''
              (reminderMessage (m_title (lr_meeting lr)) (minutesBefore (lr_reminder lr)))) c
            \<in> set (newEvents s s')" by blast
  qed
  show "enabledOrAbsent inAppNotificationsEnabled (findSettings (u_id usr) s) \<longrightarrow>
      (\<exists>n\<in>set (newNotifications s s'). n_userId n = u_id usr \<and> n_type n = MEETING_REMINDER
          \<and> relatedMeetingId n = Some (m_id (lr_meeting lr)))"
    using f(3)[OF h] by auto
qed

lemma processParticipants_deliver:
  assumes "dbHealthy s" "processParticipants lr ps s = (res, s')"
    "(p, Some usr) \<in> set ps" "truthy (p_userId p)"
  shows "(enabledOrAbsent emailNotificationsEnabled (findSettings (u_id usr) s) \<longrightarrow>
      (\<exists>b. Invoke (SendMeetingReminder (u_email usr) (m_title (lr_meeting lr))
              (minutesBefore (lr_reminder lr))) b \<in> set (newEvents s s')))
    \<and> (enabledOrAbsent pushNotificationsEnabled (findSettings (u_id usr) s) \<longrightarrow>
      (\<exists>c. Invoke (SendToUser (u_id usr) ''Meeting Reminder''
              (reminderMessage (m_title (lr_meeting lr)) (minutesBefore (lr_reminder lr)))) c
            \<in> set (newEvents s s')))
    \<and> (enabledOrAbsent inAppNotificationsEnabled (findSettings (u_id usr) s) \<longrightarrow>
      (\<exists>n\<in>set (newNotifications s s'). n_userId n = u_id usr \<and> n_type n = MEETING_REMINDER
          \<and> relatedMeetingId n = Some (m_id (lr_meeting lr))))"
  using assms
proof (induction ps arbitrary: s)
  case Nil
  then show ?case by simp
next
  case (Cons pu ps)
  obtain r1 s1 where c: "processParticipant lr pu s = (r1, s1)"
    by (cases "processParticipant lr pu s")
  note k = processParticipant_calm[OF c]
  have r1: "r1 = Ok ()" using processParticipant_healthy[OF Cons.prems(1) c] .
  have h1: "dbHealthy s1" using calm_healthy[OF k Cons.prems(1)] .
  from Cons.prems(2) c r1 have r: "processParticipants lr ps s1 = (res, s')" by simp
  note k' = processParticipants_calm[OF r]
  have ev: "newEvents s s' = newEvents s s1 @ newEvents s1 s'"
    and nn: "newNotifications s s' = newNotifications s s1 @ newNotifications s1 s'"
    using calm_compose(2,3)[OF k k'] by simp_all
  have fs: "findSettings (u_id usr) s1 = findSettings (u_id usr) s"
    using calm_lookups(1)[OF k] by simp
  show ?case
  proof (cases "pu = (p, Some usr)")
    case True
    with c have c': "processParticipant lr (p, Some usr) s = (r1, s1)" by simp
    from processParticipant_delivers[OF Cons.prems(1) c' Cons.prems(4)]
    show ?thesis unfolding ev nn by auto
  next
    case False
    with Cons.prems(3) have "(p, Some usr) \<in> set ps" by simp
    from Cons.IH[OF h1 r this Cons.prems(4)] show ?thesis unfolding ev nn fs by auto
  qed
qed

subsection \<open>Failed reminder emails are logged\<close>

lemma emailFailuresLogged_append:
  "emailFailuresLogged xs \<Longrightarrow> emailFailuresLogged ys \<Longrightarrow> emailFailuresLogged (xs @ ys)"
proof -
  have mono: "\<And>es es' e. loggedIn es e \<Longrightarrow> set es \<subseteq> set es' \<Longrightarrow> loggedIn es' e"
  proof -
    fix es es' :: "event list" and e
    assume "loggedIn es e" "set es \<subseteq> set es'"
    then show "loggedIn es' e" by (induction es e rule: loggedIn.induct) auto
  qed
  assume "emailFailuresLogged xs" "emailFailuresLogged ys"
  then show ?thesis
    unfolding emailFailuresLogged_def list_all_iff
    by (auto intro: mono[where es = xs] mono[where es = ys])
qed

lemma emailFailuresLogged_Nil [simp]: "emailFailuresLogged []"
  by (simp add: emailFailuresLogged_def)

lemma emailFailuresLogged_external: "emailFailuresLogged (externalEvents usr st uid title msg b c)"
  by (auto simp: emailFailuresLogged_def externalEvents_def attemptLog_def split: option.splits)

lemma emailFailuresLogged_direct: "emailFailuresLogged (directEvents st usr title mins b c)"
  by (auto simp: emailFailuresLogged_def directEvents_def attemptLog_def)

lemma processParticipant_logged:
  assumes run: "processParticipant lr pu s = (res, s')"
  shows "emailFailuresLogged (newEvents s s')"
proof -
  obtain p u where pu: "pu = (p, u)" by (cases pu)
  show ?thesis
  proof (cases "\<not> truthy (p_userId p) \<or> u = None")
    case True
    from processParticipant_skip[OF this, of lr s] run pu show ?thesis by simp
  next
    case False
    then obtain usr where u: "u = Some usr" and l: "truthy (p_userId p)" by auto
    from run pu u have r: "processParticipant lr (p, Some usr) s = (res, s')" by simp
    from processParticipant_facts(2)[OF r l] show ?thesis
      by (cases res)
        (auto intro!: emailFailuresLogged_append emailFailuresLogged_external
          emailFailuresLogged_direct)
  qed
qed

lemma processParticipants_logged:
  "processParticipants lr ps s = (res, s') \<Longrightarrow> emailFailuresLogged (newEvents s s')"
proof (induction ps arbitrary: s)
  case Nil
  then show ?case by simp
next
  case (Cons pu ps)
  obtain r1 s1 where c: "processParticipant lr pu s = (r1, s1)"
    by (cases "processParticipant lr pu s")
  note k = processParticipant_calm[OF c]
  show ?case
  proof (cases r1)
    case (Throw x)
    with Cons.prems c have "s' = s1" by simp
    with processParticipant_logged[OF c] show ?thesis by simp
  next
    case (Ok x)
    with Cons.prems c have r: "processParticipants lr ps s1 = (res, s')" by simp
    have "newEvents s s' = newEvents s s1 @ newEvents s1 s'"
      using calm_compose(2)[OF k processParticipants_calm[OF r]] .
    then show ?thesis
      using emailFailuresLogged_append[OF processParticipant_logged[OF c] Cons.IH[OF r]] by simp
  qed
qed

subsection \<open>Auxiliary facts for the properties\<close>

lemma tables_outcomes [simp]:
  "dbHealthy (s\<lparr>smtpOutcomes := so, pushOutcomes := po\<rparr>) = dbHealthy s"
  "findDueReminders now (s\<lparr>smtpOutcomes := so, pushOutcomes := po\<rparr>) = findDueReminders now s"
  "findSettings u (s\<lparr>smtpOutcomes := so, pushOutcomes := po\<rparr>) = findSettings u s"
  "findUser u (s\<lparr>smtpOutcomes := so, pushOutcomes := po\<rparr>) = findUser u s"
proof -
  show "dbHealthy (s\<lparr>smtpOutcomes := so, pushOutcomes := po\<rparr>) = dbHealthy s"
    by (simp add: dbHealthy_def)
  show "findDueReminders now (s\<lparr>smtpOutcomes := so, pushOutcomes := po\<rparr>) = findDueReminders now s"
    by (rule findDueReminders_tables) simp_all
  show "findSettings u (s\<lparr>smtpOutcomes := so, pushOutcomes := po\<rparr>) = findSettings u s"
    by (simp add: findSettings_def)
  show "findUser u (s\<lparr>smtpOutcomes := so, pushOutcomes := po\<rparr>) = findUser u s"
    by (simp add: findUser_def)
qed

lemma dbHealthy_first: "dbHealthy s \<Longrightarrow> \<not> fst (dbCall s)"
  using dbCall_calm(5)[of s "fst (dbCall s)" "snd (dbCall s)"] by simp

lemma list_ex_member: "r \<in> set xs \<Longrightarrow> list_ex (\<lambda>x. r_id x = r_id r) xs"
  by (auto simp: list_ex_iff)

lemma store0_basic: "dbHealthy store0" "wallclock store0 = 0"
  by (simp_all add: store0_def dbHealthy_def)

lemma loaded15_fields:
  "lr_participants loaded15 = [(pAlice, Some alice), (pBob, Some bob), (pCarol, None)]"
  "r_id (lr_reminder loaded15) = ''r1''" "m_title (lr_meeting loaded15) = ''Standup''"
  "minutesBefore (lr_reminder loaded15) = 15" "m_id (lr_meeting loaded15) = ''m1''"
  "u_id bob = ''u2''" "u_email bob = ''bob@example.com''"
  "u_id alice = ''u1''" "u_email alice = ''alice@example.com''"
  "p_userId pBob = Some ''u2''" "p_userId pAlice = Some ''u1''"
  by (simp_all add: store_defs)

lemma processReminder_logged: "emailFailuresLogged (newEvents s (processReminder lr s))"
proof -
  from processReminder_facts(6)[of lr s] obtain res s1 tail where
    r: "processParticipants lr (lr_participants lr) s = (res, s1)"
    and ev: "newEvents s (processReminder lr s) = newEvents s s1 @ tail"
    and tail: "tail = [] \<or> tail = [failedToProcess (r_id (lr_reminder lr))]" by blast
  have "emailFailuresLogged tail"
    using tail by (auto simp: emailFailuresLogged_def failedToProcess_def)
  with processParticipants_logged[OF r] show ?thesis
    unfolding ev by (rule emailFailuresLogged_append)
qed

lemma filter_attemptLog:
  "filter P (attemptLog c msg b) =
     (if P (Invoke c b) then [Invoke c b] else []) @ (if b \<and> P (ConsoleError msg) then [ConsoleError msg] else [])"
  by (simp add: attemptLog_def)

lemma count_email_external:
  "length (filter (isEmailTo a) (externalEvents (Some usr) st uid t m b c)) =
     (if enabledOrAbsent emailNotificationsEnabled st \<and> u_email usr = a then 1 else 0)"
  by (simp add: externalEvents_def filter_attemptLog)

lemma count_email_direct:
  "length (filter (isEmailTo (u_email usr)) (directEvents st usr t n b c)) =
     (if enabledOrAbsent emailNotificationsEnabled st then 1 else 0)"
  by (simp add: directEvents_def filter_attemptLog)

lemma count_push_external:
  "length (filter (isPushTo uid) (externalEvents (Some usr) st uid t m b c)) =
     (if enabledOrAbsent pushNotificationsEnabled st then 1 else 0)"
  by (simp add: externalEvents_def filter_attemptLog)

lemma count_push_direct:
  "length (filter (isPushTo (u_id usr)) (directEvents st usr t n b c)) =
     (if enabledOrAbsent pushNotificationsEnabled st then 1 else 0)"
  by (simp add: directEvents_def filter_attemptLog)

lemma no_email_external:
  "\<not> enabledOrAbsent emailNotificationsEnabled st \<Longrightarrow>
     filter (isEmailTo a) (externalEvents usr st uid t m b c) = []"
  by (simp add: externalEvents_def filter_attemptLog split: option.splits)

lemma email_external_Some:
  "filter (isEmailTo a) (externalEvents usr (Some st) uid t m b c) \<noteq> [] \<Longrightarrow>
     emailNotificationsEnabled st"
  using no_email_external[of "Some st" a usr uid t m b c] by (auto simp: enabledOrAbsent_def)

lemma email_direct:
  "filter (isEmailTo (u_email usr)) (directEvents st usr t n b c) = [] \<longleftrightarrow>
     \<not> enabledOrAbsent emailNotificationsEnabled st"
  by (simp add: directEvents_def filter_attemptLog)

subsection \<open>Reminder lifecycle\<close>

lemma insertReminders_frame:
  "dbOutcomes (insertReminders mid start ls s) = dbOutcomes s"
  "tbl_meeting (insertReminders mid start ls s) = tbl_meeting s"
  by (induction ls arbitrary: s) simp_all

lemma insertReminders_rows:
  "tbl_meetingReminder (insertReminders mid start ls s) =
     tbl_meetingReminder s @ drop (length (tbl_meetingReminder s))
        (tbl_meetingReminder (insertReminders mid start ls s))
   \<and> map reminderContent (drop (length (tbl_meetingReminder s))
        (tbl_meetingReminder (insertReminders mid start ls s))) =
          map (\<lambda>l. (mid, l, start - l * 60 * 1000, None, False, False, False)) ls"
proof (induction ls arbitrary: s)
  case Nil
  show ?case by simp
next
  case (Cons l ls)
  define s1 where "s1 = s\<lparr>tbl_meetingReminder := tbl_meetingReminder s
              @ [newReminder (freshId s) (wallclock s) mid start l],
          idSupply := Suc (idSupply s)\<rparr>"
  define out where "out = tbl_meetingReminder (insertReminders mid start ls s1)"
  have step: "insertReminders mid start (l # ls) s = insertReminders mid start ls s1"
    by (simp add: s1_def)
  have rows1: "tbl_meetingReminder s1 =
      tbl_meetingReminder s @ [newReminder (freshId s) (wallclock s) mid start l]"
    by (simp add: s1_def)
  define rest where "rest = drop (length (tbl_meetingReminder s1)) out"
  from Cons.IH[of s1] have a: "out = tbl_meetingReminder s1 @ rest"
    and c: "map reminderContent rest =
          map (\<lambda>l. (mid, l, start - l * 60 * 1000, None, False, False, False)) ls"
    unfolding out_def rest_def by simp_all
  have o: "out = tbl_meetingReminder s @ newReminder (freshId s) (wallclock s) mid start l # rest"
    using a rows1 by simp
  have d: "drop (length (tbl_meetingReminder s)) out =
      newReminder (freshId s) (wallclock s) mid start l # rest"
    by (simp add: o)
  have "out = tbl_meetingReminder s @ drop (length (tbl_meetingReminder s)) out"
    unfolding d by (rule o)
  moreover have "map reminderContent (drop (length (tbl_meetingReminder s)) out) =
      map (\<lambda>l. (mid, l, start - l * 60 * 1000, None, False, False, False)) (l # ls)"
    unfolding d using c by (simp add: reminderContent_def newReminder_def)
  ultimately show ?case unfolding step out_def by blast
qed

lemma insertReminders_facts:
  "\<exists>added. tbl_meetingReminder (insertReminders mid start ls s) = tbl_meetingReminder s @ added
      \<and> map reminderContent added =
          map (\<lambda>l. (mid, l, start - l * 60 * 1000, None, False, False, False)) ls"
  using insertReminders_rows[of mid start ls s] by blast

lemma content_meeting:
  "map reminderContent xs = map (\<lambda>l. (mid, l, f l, None, False, False, False)) ls \<Longrightarrow>
     filter (\<lambda>r. r_meetingId r = mid) xs = xs \<and> filter (\<lambda>r. r_meetingId r \<noteq> mid) xs = []
     \<and> map minutesBefore xs = ls"
proof (induction xs arbitrary: ls)
  case Nil
  then show ?case by simp
next
  case (Cons x xs)
  then obtain l ls' where ls: "ls = l # ls'" by (cases ls) auto
  with Cons.prems have x: "reminderContent x = (mid, l, f l, None, False, False, False)"
    and r: "map reminderContent xs = map (\<lambda>l. (mid, l, f l, None, False, False, False)) ls'"
    by simp_all
  from x have "r_meetingId x = mid" "minutesBefore x = l" by (simp_all add: reminderContent_def)
  with Cons.IH[OF r] ls show ?case by simp
qed

lemma deleteReminders_facts:
  assumes "deleteReminders mid s = (res, s')"
  shows "dbHealthy s \<Longrightarrow> res = Ok () \<and> dbHealthy s'"
    "res = Ok () \<Longrightarrow> tbl_meetingReminder s' = filter (\<lambda>r. r_meetingId r \<noteq> mid) (tbl_meetingReminder s)"
    "tbl_meeting s' = tbl_meeting s" "tbl_user s' = tbl_user s"
    "tbl_meetingParticipant s' = tbl_meetingParticipant s"
  using assms
  by (auto simp: deleteReminders_def dbCall_def nextOutcome_def dbHealthy_def
      split: list.splits if_splits prod.splits)

lemma createReminders_facts:
  assumes "createReminders mid start ls s = (res, s')"
  shows "dbHealthy s \<Longrightarrow> res = Ok () \<and> dbHealthy s'"
    "res = Ok () \<Longrightarrow> \<exists>added. tbl_meetingReminder s' = tbl_meetingReminder s @ added
      \<and> map reminderContent added =
          map (\<lambda>l. (mid, l, start - l * 60 * 1000, None, False, False, False)) ls"
proof -
  obtain t s1 where c: "dbCall s = (t, s1)" by (cases "dbCall s")
  note d = dbCall_calm[OF c]
  have rows: "tbl_meetingReminder s1 = tbl_meetingReminder s" using d(1) by (simp add: calm_def)
  show "dbHealthy s \<Longrightarrow> res = Ok () \<and> dbHealthy s'"
    using assms c d(5) calm_healthy[OF d(1)] insertReminders_frame(1)[of mid start ls s1]
    by (auto simp: createReminders_def dbHealthy_def split: if_splits)
  show "res = Ok () \<Longrightarrow> \<exists>added. tbl_meetingReminder s' = tbl_meetingReminder s @ added
      \<and> map reminderContent added =
          map (\<lambda>l. (mid, l, start - l * 60 * 1000, None, False, False, False)) ls"
    using assms c insertReminders_facts[of mid start ls s1] rows
    by (auto simp: createReminders_def split: if_splits)
qed

lemma regenerate_facts:
  assumes h: "dbHealthy s"
  shows "\<exists>s' added. regenerate mid start ls s = (Ok (), s') \<and> dbHealthy s'
      \<and> tbl_meetingReminder s' = filter (\<lambda>r. r_meetingId r \<noteq> mid) (tbl_meetingReminder s) @ added
      \<and> map reminderContent added =
          map (\<lambda>l. (mid, l, start - l * 60 * 1000, None, False, False, False)) ls"
proof -
  obtain r1 s1 where d: "deleteReminders mid s = (r1, s1)" by (cases "deleteReminders mid s")
  note df = deleteReminders_facts[OF d]
  from df(1)[OF h] have r1: "r1 = Ok ()" and h1: "dbHealthy s1" by simp_all
  obtain r2 s2 where c: "createReminders mid start ls s1 = (r2, s2)"
    by (cases "createReminders mid start ls s1")
  note cf = createReminders_facts[OF c]
  from cf(1)[OF h1] have r2: "r2 = Ok ()" and h2: "dbHealthy s2" by simp_all
  have "regenerate mid start ls s = (Ok (), s2)" using d c r1 r2 by (simp add: regenerate_def)
  with cf(2)[OF r2] df(2)[OF r1] h2 show ?thesis by auto
qed

lemma getById_facts:
  assumes "getById mid uid s = (res, s')"
  shows "calm s s'" "res = Ok m \<Longrightarrow> findMeeting mid s = Some m"
proof -
  obtain t s1 where c: "dbCall s = (t, s1)" by (cases "dbCall s")
  note d = dbCall_calm[OF c]
  have s': "s' = s1" using assms c by (auto simp: getById_def split: if_splits option.splits)
  show "calm s s'" using d(1) s' by simp
  show "res = Ok m \<Longrightarrow> findMeeting mid s = Some m"
    using assms c calm_lookups(3)[OF d(1), of mid]
    by (auto simp: getById_def split: if_splits option.splits)
qed

lemma notifyCancellation_calm:
  "notifyCancellation mid title creator ps s = (res, s') \<Longrightarrow> calm s s'"
proof (induction ps arbitrary: s)
  case Nil
  then show ?case by simp
next
  case (Cons p ps)
  show ?case
  proof (cases "p_userId p")
    case None
    with Cons.prems have "notifyCancellation mid title creator ps s = (res, s')" by simp
    then show ?thesis by (rule Cons.IH)
  next
    case (Some u)
    show ?thesis
    proof (cases creator)
      case None
      with Cons.prems Some show ?thesis by simp
    next
      case c: (Some cr)
      obtain r1 s1 where k1: "createMeetingCancellation u mid title (u_name cr) s = (r1, s1)"
        by (cases "createMeetingCancellation u mid title (u_name cr) s")
      note k = createMeetingCancellation_calm[OF k1]
      show ?thesis
      proof (cases r1)
        case (Throw e)
        with Cons.prems Some c k1 k show ?thesis by simp
      next
        case (Ok x)
        with Cons.prems Some c k1 have "notifyCancellation mid title creator ps s1 = (res, s')"
          by simp
        from calm_trans[OF k Cons.IH[OF this]] show ?thesis .
      qed
    qed
  qed
qed

lemma createAuditLog_calm: "calm s (createAuditLog s)"
proof -
  obtain t s1 where c: "dbCall s = (t, s1)" by (cases "dbCall s")
  note d = dbCall_calm[OF c]
  show ?thesis using c d(1) calm_trans[OF d(1) emit_calm(1)[of s1]]
    by (auto simp: createAuditLog_def)
qed

lemma cancel_Ok:
  assumes run: "cancel mid uid s = (Ok m, s')"
  shows "tbl_meetingReminder s' = filter (\<lambda>r. r_meetingId r \<noteq> mid) (tbl_meetingReminder s)"
    "tbl_meeting s' = map (\<lambda>x. if m_id x = mid then x\<lparr>isCancelled := True\<rparr> else x) (tbl_meeting s)"
proof -
  obtain r1 s1 where g: "getById mid uid s = (r1, s1)" by (cases "getById mid uid s")
  note gf = getById_facts[OF g]
  from run g obtain m0 where r1: "r1 = Ok m0" by (cases r1) (auto simp: cancel_def)
  from run g r1 have chk: "createdByUserId m0 = uid" "\<not> isCancelled m0"
    by (auto simp: cancel_def split: if_splits)
  obtain t2 s2 where c2: "dbCall s1 = (t2, s2)" by (cases "dbCall s1")
  note d2 = dbCall_calm[OF c2]
  from run g r1 chk c2 have nt2: "\<not> t2" by (auto simp: cancel_def split: if_splits)
  define s3 where "s3 = s2\<lparr>tbl_meeting :=
       map (\<lambda>x. if m_id x = mid then x\<lparr>isCancelled := True\<rparr> else x) (tbl_meeting s2)\<rparr>"
  obtain r4 s4 where d4: "deleteReminders mid s3 = (r4, s4)" by (cases "deleteReminders mid s3")
  note df = deleteReminders_facts[OF d4]
  from run g r1 chk c2 nt2 d4 have r4: "r4 = Ok ()"
    by (cases r4) (auto simp: cancel_def Let_def s3_def)
  define ps where "ps = filter (\<lambda>p. truthy (p_userId p) \<and> p_userId p \<noteq> Some uid)
       (filter (\<lambda>p. p_meetingId p = m_id m0) (tbl_meetingParticipant s3))"
  obtain r5 s5 where n5: "notifyCancellation mid (m_title m0) (findUser uid s3) ps s4 = (r5, s5)"
    by (cases "notifyCancellation mid (m_title m0) (findUser uid s3) ps s4")
  note k5 = notifyCancellation_calm[OF n5]
  from run g r1 chk c2 nt2 d4 r4 n5 have s': "s' = createAuditLog s5"
    by (cases r5) (auto simp: cancel_def Let_def s3_def ps_def)
  have k: "calm s4 s'" using calm_trans[OF k5 createAuditLog_calm[of s5]] s' by simp
  have k12: "calm s s2" using calm_trans[OF gf(1) d2(1)] .
  have rows3: "tbl_meetingReminder s3 = tbl_meetingReminder s"
    using k12 by (simp add: s3_def calm_def)
  have mt3: "tbl_meeting s3 =
      map (\<lambda>x. if m_id x = mid then x\<lparr>isCancelled := True\<rparr> else x) (tbl_meeting s)"
    using k12 by (simp add: s3_def calm_def evolves_def)
  show "tbl_meetingReminder s' = filter (\<lambda>r. r_meetingId r \<noteq> mid) (tbl_meetingReminder s)"
    using k df(2)[OF r4] rows3 by (simp add: calm_def)
  show "tbl_meeting s' =
      map (\<lambda>x. if m_id x = mid then x\<lparr>isCancelled := True\<rparr> else x) (tbl_meeting s)"
    using k df(3) mt3 by (simp add: calm_def evolves_def)
qed

lemma find_cancelled:
  "find (\<lambda>m. m_id m = mid) (map (\<lambda>x. if m_id x = mid then x\<lparr>isCancelled := True\<rparr> else x) ms) = Some m
     \<Longrightarrow> isCancelled m"
proof (induction ms)
  case Nil
  then show ?case by simp
next
  case (Cons a ms)
  show ?case
  proof (cases "m_id a = mid")
    case True
    with Cons.prems have "m = a\<lparr>isCancelled := True\<rparr>" by simp
    then show ?thesis by simp
  next
    case False
    with Cons.prems Cons.IH show ?thesis by simp
  qed
qed

lemma length_filter_count:
  "length (filter (\<lambda>r. g r = v) xs) = count_list (map g xs) v"
  by (induction xs) auto

lemma distinct_count_list: "distinct xs \<Longrightarrow> count_list xs x = (if x \<in> set xs then 1 else 0)"
  by (induction xs) auto

lemma filter_filter_neq: "filter (\<lambda>r. r_meetingId r = mid) (filter (\<lambda>r. r_meetingId r \<noteq> mid) xs) = []"
  by (induction xs) auto

lemma rowsFor_split:
  assumes rows: "tbl_meetingReminder s' = filter (\<lambda>r. r_meetingId r \<noteq> mid) old @ added"
    and own: "\<forall>r\<in>set added. r_meetingId r = mid"
  shows "remindersOf mid s' = added"
    "rowsFor mid lead s' = filter (\<lambda>r. minutesBefore r = lead) added"
    "filter (\<lambda>r. r_meetingId r \<noteq> mid) (tbl_meetingReminder s') = filter (\<lambda>r. r_meetingId r \<noteq> mid) old"
proof -
  have a1: "filter (\<lambda>r. r_meetingId r = mid) added = added"
    using own by (simp add: filter_id_conv)
  have a2: "filter (\<lambda>r. r_meetingId r \<noteq> mid) added = []"
    using own by (simp add: filter_empty_conv)
  have a3: "filter (\<lambda>r. r_meetingId r = mid \<and> minutesBefore r = lead) added
      = filter (\<lambda>r. minutesBefore r = lead) added"
    using own by (auto intro: filter_cong)
  have a4: "filter (\<lambda>r. r_meetingId r = mid \<and> minutesBefore r = lead)
              (filter (\<lambda>r. r_meetingId r \<noteq> mid) old) = []"
    by (simp add: filter_empty_conv)
  show "remindersOf mid s' = added"
    by (simp add: remindersOf_def rows filter_filter_neq a1)
  show "rowsFor mid lead s' = filter (\<lambda>r. minutesBefore r = lead) added"
    unfolding rowsFor_def rows filter_append a3 a4 by simp
  show "filter (\<lambda>r. r_meetingId r \<noteq> mid) (tbl_meetingReminder s')
      = filter (\<lambda>r. r_meetingId r \<noteq> mid) old"
    by (simp add: rows a2)
qed

subsection \<open>Which exceptions leave the participant loop\<close>

lemma create_throws:
  "create uid ty title msg rel s = (Throw e, s') \<Longrightarrow> e \<in> set storeRejections"
  by (auto simp: create_def storeRejections_def Let_def split: prod.splits if_splits)

lemma sendExternalNotifications_throws:
  "sendExternalNotifications uid title msg rel s = (Throw e, s') \<Longrightarrow> e \<in> set storeRejections"
  by (auto simp: sendExternalNotifications_def storeRejections_def Let_def
      split: prod.splits if_splits option.splits)

lemma createMeetingReminder_throws:
  "createMeetingReminder uid mid title mins s = (Throw e, s') \<Longrightarrow> e \<in> set storeRejections"
  by (auto simp: createMeetingReminder_def split: prod.splits result.splits
      dest: create_throws sendExternalNotifications_throws)

lemma processParticipant_throws:
  "processParticipant lr pu s = (Throw e, s') \<Longrightarrow> e \<in> set storeRejections"
proof -
  assume run: "processParticipant lr pu s = (Throw e, s')"
  obtain p u where pu: "pu = (p, u)" by (cases pu)
  show ?thesis
  proof (cases "\<not> truthy (p_userId p) \<or> u = None")
    case True
    from processParticipant_skip[OF this, of lr s] run pu show ?thesis by simp
  next
    case False
    then obtain usr where u: "u = Some usr" and l: "truthy (p_userId p)" by auto
    obtain t1 s1 where c1: "dbCall s = (t1, s1)" by (cases "dbCall s")
    show ?thesis
    proof (cases t1)
      case True
      with run pu u l c1 show ?thesis
        by (simp add: processParticipant_def storeRejections_def)
    next
      case False
      obtain r2 s2 where c2: "(if enabledOrAbsent inAppNotificationsEnabled (findSettings (u_id usr) s1)
                         then createMeetingReminder (u_id usr) (m_id (lr_meeting lr))
                                (m_title (lr_meeting lr)) (minutesBefore (lr_reminder lr)) s1
                         else (Ok (), s1)) = (r2, s2)"
        by (cases "if enabledOrAbsent inAppNotificationsEnabled (findSettings (u_id usr) s1)
                         then createMeetingReminder (u_id usr) (m_id (lr_meeting lr))
                                (m_title (lr_meeting lr)) (minutesBefore (lr_reminder lr)) s1
                         else (Ok (), s1)")
      from run pu u l c1 False c2 have "r2 = Throw e"
        by (cases r2) (simp_all add: processParticipant_def Let_def)
      with c2 show ?thesis by (auto split: if_splits dest: createMeetingReminder_throws)
    qed
  qed
qed

lemma processParticipants_throws:
  "processParticipants lr ps s = (Throw e, s') \<Longrightarrow> e \<in> set storeRejections"
proof (induction ps arbitrary: s)
  case Nil
  then show ?case by simp
next
  case (Cons pu ps)
  obtain r1 s1 where c: "processParticipant lr pu s = (r1, s1)"
    by (cases "processParticipant lr pu s")
  show ?case
  proof (cases r1)
    case (Throw x)
    with Cons.prems c have "x = e" by simp
    with processParticipant_throws[of lr pu s x s1] c Throw show ?thesis by simp
  next
    case (Ok x)
    with Cons.prems c have "processParticipants lr ps s1 = (Throw e, s')" by simp
    then show ?thesis by (rule Cons.IH)
  qed
qed

lemma processReminder_marked_or_rejected:
  "markedSent (r_id (lr_reminder lr)) (processReminder lr s)
   \<or> (\<exists>e\<in>set storeRejections. fst (processParticipants lr (lr_participants lr) s) = Throw e)
   \<or> fst (updateReminderSent (r_id (lr_reminder lr))
            (snd (processParticipants lr (lr_participants lr) s))) \<noteq> Ok ()"
proof -
  obtain r1 s1 where c1: "processParticipants lr (lr_participants lr) s = (r1, s1)"
    by (cases "processParticipants lr (lr_participants lr) s")
  show ?thesis
  proof (cases r1)
    case (Throw e)
    with processParticipants_throws[of lr "lr_participants lr" s e s1] c1 show ?thesis by auto
  next
    case (Ok x)
    obtain r2 s2 where c2: "updateReminderSent (r_id (lr_reminder lr)) s1 = (r2, s2)"
      by (cases "updateReminderSent (r_id (lr_reminder lr)) s1")
    show ?thesis
    proof (cases r2)
      case ok2: (Ok y)
      with c1 c2 Ok have "processReminder lr s = s2" by (simp add: processReminder_def)
      with updateReminderSent_facts(4)[OF c2] ok2 show ?thesis by simp
    next
      case (Throw e)
      with c1 c2 show ?thesis by simp
    qed
  qed
qed

lemma processReminder_logs_throw:
  assumes "fst (processParticipants lr (lr_participants lr) s) = Throw e"
  shows "failedToProcess (r_id (lr_reminder lr)) \<in> set (newEvents s (processReminder lr s))"
proof -
  obtain r1 s1 where c1: "processParticipants lr (lr_participants lr) s = (r1, s1)"
    by (cases "processParticipants lr (lr_participants lr) s")
  with assms have r1: "r1 = Throw e" by simp
  have s': "processReminder lr s = emit (failedToProcess (r_id (lr_reminder lr))) s1"
    using c1 r1 by (simp add: processReminder_def)
  note k1 = processParticipants_calm[OF c1]
  have "newEvents s (processReminder lr s) = newEvents s s1 @ [failedToProcess (r_id (lr_reminder lr))]"
    using calm_compose(2)[OF k1 emit_calm(1)[of s1 "failedToProcess (r_id (lr_reminder lr))"]]
      emit_calm(2)[of s1] s' by simp
  then show ?thesis by simp
qed

section \<open>Properties\<close>

lemma tick_marks_all_when_healthy:
  assumes "dbHealthy s"
  shows "\<forall>lr\<in>set (findDueReminders (wallclock s) s).
     markedSent (r_id (lr_reminder lr))
       (snd (processReminders (s\<lparr>smtpOutcomes := so, pushOutcomes := po\<rparr>)))"
proof
  fix lr assume m: "lr \<in> set (findDueReminders (wallclock s) s)"
  let ?s0 = "s\<lparr>smtpOutcomes := so, pushOutcomes := po\<rparr>"
  obtain res s' where run: "processReminders ?s0 = (res, s')" by (cases "processReminders ?s0")
  have h0: "dbHealthy ?s0" using assms by simp
  have "res = Ok ()" using processReminders_facts(2)[OF run] dbHealthy_first[OF h0] by simp
  with run have r: "processReminders ?s0 = (Ok (), s')" by simp
  from r obtain s1 where a: "calm ?s0 s1"
    "calm (processBatch (findDueReminders (wallclock ?s0) ?s0) s1) s'"
    by (rule processReminders_split)
  have b: "findDueReminders (wallclock ?s0) ?s0 = findDueReminders (wallclock s) s" by simp
  have h1: "dbHealthy s1" using calm_healthy[OF a(1) h0] .
  have rows: "tbl_meetingReminder s1 = tbl_meetingReminder s" using a(1) by (simp add: calm_def)
  have ex: "list_ex (\<lambda>r. r_id r = r_id (lr_reminder lr)) (tbl_meetingReminder s1)"
    unfolding rows using findDue_member(3)[OF m] by (rule list_ex_member)
  have "markedSent (r_id (lr_reminder lr)) (processBatch (findDueReminders (wallclock s) s) s1)"
    using processBatch_healthy[OF h1 m ex] .
  then have "markedSent (r_id (lr_reminder lr)) s'"
    using markedSent_calm[OF a(2)] b by simp
  then show "markedSent (r_id (lr_reminder lr)) (snd (processReminders ?s0))" using run by simp
qed

text \<open>
  C1 (amended). A reminder processed by the dispatch loop ends up marked as sent
  (\<open>sentAt\<close> non-null, \<open>emailSent\<close>, \<open>pushSent\<close> and \<open>inAppCreated\<close> all true) unless
  a store call made for it rejects: a settings lookup, the in-app writer's lookup or
  insert, a lookup of \<open>sendExternalNotifications\<close>, or the final update. Exceptions of
  the email sender and of the push sender never prevent it: when no store call rejects,
  every reminder selected in a tick is marked, whatever the two senders do for any
  participant (\<open>so\<close> and \<open>po\<close> are arbitrary sequences of their outcomes).
\<close>

theorem reminders_marked_unless_store_rejects:
  "(dbHealthy s \<longrightarrow>
      (\<forall>lr\<in>set (findDueReminders (wallclock s) s).
         markedSent (r_id (lr_reminder lr))
           (snd (processReminders (s\<lparr>smtpOutcomes := so, pushOutcomes := po\<rparr>)))))
   \<and> (markedSent (r_id (lr_reminder lr0)) (processReminder lr0 s0)
       \<or> (\<exists>e\<in>set storeRejections.
             fst (processParticipants lr0 (lr_participants lr0) s0) = Throw e)
       \<or> fst (updateReminderSent (r_id (lr_reminder lr0))
                (snd (processParticipants lr0 (lr_participants lr0) s0))) \<noteq> Ok ())"
  using tick_marks_all_when_healthy[where s = s and so = so and po = po]
    processReminder_marked_or_rejected[of lr0 s0]
  by blast

theorem reminders_marked_unless_store_rejects_witness:
  "dbHealthy store0 \<and> loaded15 \<in> set (findDueReminders (wallclock store0) store0)
   \<and> markedSent (r_id (lr_reminder loaded15))
       (snd (processReminders (store0\<lparr>smtpOutcomes := [failing], pushOutcomes := [passing, failing]\<rparr>)))
   \<and> fst (processParticipants loaded15 (lr_participants loaded15)
            (store0\<lparr>smtpOutcomes := [failing], pushOutcomes := [passing, failing]\<rparr>)) = Ok ()
   \<and> fst (updateReminderSent (r_id (lr_reminder loaded15))
            (snd (processParticipants loaded15 (lr_participants loaded15)
               (store0\<lparr>smtpOutcomes := [failing], pushOutcomes := [passing, failing]\<rparr>)))) = Ok ()
   \<and> markedSent (r_id (lr_reminder loaded15))
       (processReminder loaded15 (store0\<lparr>smtpOutcomes := [failing], pushOutcomes := [passing, failing]\<rparr>))"
proof -
  let ?s0 = "store0\<lparr>smtpOutcomes := [failing], pushOutcomes := [passing, failing]\<rparr>"
  have m: "loaded15 \<in> set (findDueReminders (wallclock store0) store0)"
    by (simp add: store0_basic findDue_store0)
  have p: "fst (processParticipants loaded15 (lr_participants loaded15) ?s0) = Ok ()"
    by code_simp
  have u: "fst (updateReminderSent (r_id (lr_reminder loaded15))
            (snd (processParticipants loaded15 (lr_participants loaded15) ?s0))) = Ok ()"
    by code_simp
  note t = reminders_marked_unless_store_rejects[where s = store0 and so = "[failing]"
      and po = "[passing, failing]" and ?lr0.0 = loaded15 and ?s0.0 = ?s0]
  from t store0_basic(1) m have a: "markedSent (r_id (lr_reminder loaded15))
       (snd (processReminders ?s0))" by blast
  from t p u have b: "markedSent (r_id (lr_reminder loaded15)) (processReminder loaded15 ?s0)"
    by auto
  from store0_basic(1) m a p u b show ?thesis by blast
qed

text \<open>
  C1 as stated fails for the in-app writer. In the concrete store the selection query, the
  settings lookup of the loop and the settings lookup of \<open>create\<close> succeed, and the
  insert of the Notification row rejects: the exception leaves the participant loop, the
  update of lines 128-136 is skipped, \<open>sentAt\<close> of the selected reminder stays null and
  the failure is logged for the reminder.
\<close>

theorem in_app_failure_leaves_reminder_pending:
  "map sentAt (tbl_meetingReminder (snd (processReminders
        (store0\<lparr>dbOutcomes := [passing, passing, passing, failing]\<rparr>)))) = [None, None]
   \<and> map r_id (map lr_reminder (findDueReminders
        (wallclock (store0\<lparr>dbOutcomes := [passing, passing, passing, failing]\<rparr>))
        (store0\<lparr>dbOutcomes := [passing, passing, passing, failing]\<rparr>))) = [''r1'']
   \<and> failedToProcess ''r1'' \<in> set (trace (snd (processReminders
        (store0\<lparr>dbOutcomes := [passing, passing, passing, failing]\<rparr>))))"
  by code_simp

text \<open>
  C2. Given the current time \<open>now\<close>, the selector returns at most 100 reminders; every
  returned reminder is a stored row with \<open>scheduledFor \<le> now + 1 minute\<close>, \<open>sentAt\<close>
  null, and an owning meeting that is not cancelled and starts after \<open>now\<close>; and the
  returned rows are exactly the first 100 (in store order) of the rows satisfying all of
  these conditions, so none failing a condition is returned and, below the cap, none
  satisfying them is left out.
\<close>

theorem selector_returns_due_batch:
  "length (findDueReminders now s) \<le> 100
   \<and> (\<forall>lr \<in> set (findDueReminders now s).
        lr_reminder lr \<in> set (tbl_meetingReminder s)
        \<and> scheduledFor (lr_reminder lr) \<le> now + 60 * 1000
        \<and> sentAt (lr_reminder lr) = None
        \<and> owningMeeting s (lr_reminder lr) = Some (lr_meeting lr)
        \<and> \<not> isCancelled (lr_meeting lr)
        \<and> startTime (lr_meeting lr) > now)
   \<and> map lr_reminder (findDueReminders now s) =
        take 100 (filter (\<lambda>r. scheduledFor r \<le> now + 60 * 1000 \<and> sentAt r = None \<and>
                        (\<exists>m. owningMeeting s r = Some m \<and> \<not> isCancelled m \<and> startTime m > now))
                   (tbl_meetingReminder s))"
proof (intro conjI ballI)
  have "length (map lr_reminder (findDueReminders now s)) \<le> 100"
    unfolding findDue_reminders by simp
  then show "length (findDueReminders now s) \<le> 100" by simp
next
  fix lr assume a: "lr \<in> set (findDueReminders now s)"
  note m = findDue_member[OF a]
  from includeMeeting_Some[OF m(1)]
  have own: "owningMeeting s (lr_reminder lr) = Some (lr_meeting lr)" by simp
  show "lr_reminder lr \<in> set (tbl_meetingReminder s)" by (rule m(3))
  show "scheduledFor (lr_reminder lr) \<le> now + 60 * 1000" using m(2) by (simp add: isDue_def)
  show "sentAt (lr_reminder lr) = None" using m(2) by (simp add: isDue_def)
  show "owningMeeting s (lr_reminder lr) = Some (lr_meeting lr)" by (rule own)
  show "\<not> isCancelled (lr_meeting lr)" using m(2) own by (simp add: isDue_def)
  show "startTime (lr_meeting lr) > now" using m(2) own by (simp add: isDue_def)
next
  have "isDue now s = (\<lambda>r. scheduledFor r \<le> now + 60 * 1000 \<and> sentAt r = None \<and>
                        (\<exists>m. owningMeeting s r = Some m \<and> \<not> isCancelled m \<and> startTime m > now))"
    by (rule ext) (rule isDue_spec)
  then show "map lr_reminder (findDueReminders now s) =
        take 100 (filter (\<lambda>r. scheduledFor r \<le> now + 60 * 1000 \<and> sentAt r = None \<and>
                        (\<exists>m. owningMeeting s r = Some m \<and> \<not> isCancelled m \<and> startTime m > now))
                   (tbl_meetingReminder s))"
    using findDue_reminders[of now s] by simp
qed

theorem selector_returns_due_batch_witness:
  "loaded15 \<in> set (findDueReminders 0 store0)
   \<and> lr_reminder loaded15 \<in> set (tbl_meetingReminder store0)
   \<and> scheduledFor (lr_reminder loaded15) \<le> 0 + 60 * 1000
   \<and> sentAt (lr_reminder loaded15) = None
   \<and> owningMeeting store0 (lr_reminder loaded15) = Some (lr_meeting loaded15)
   \<and> \<not> isCancelled (lr_meeting loaded15)
   \<and> startTime (lr_meeting loaded15) > 0
   \<and> map lr_reminder (findDueReminders 0 store0) = [rem15]"
proof -
  have m: "loaded15 \<in> set (findDueReminders 0 store0)" by (simp add: findDue_store0)
  have r: "map lr_reminder (findDueReminders 0 store0) = [rem15]"
    by (simp add: findDue_store0 loaded15_def)
  from selector_returns_due_batch[of 0 store0] m r show ?thesis by blast
qed

text \<open>
  C3 (amended). For a linked participant whose user row exists and whose in-app channel
  is enabled (or who has no settings record), and with no rejected store call, dispatching
  one reminder to that participant invokes the email sender exactly twice if the user's
  email channel is enabled (or the settings record is absent) and not at all otherwise, and
  likewise the push sender exactly twice if the push channel is enabled (or absent) and not
  at all otherwise: once through \<open>createMeetingReminder\<close> and once directly.
\<close>

theorem enabled_channels_invoked_twice:
  assumes "dbHealthy s" and "truthy (p_userId p)" and "findUser (u_id usr) s = Some usr"
    and "enabledOrAbsent inAppNotificationsEnabled (findSettings (u_id usr) s)"
  shows "length (filter (isEmailTo (u_email usr))
            (newEvents s (snd (processParticipant lr (p, Some usr) s)))) =
         (if enabledOrAbsent emailNotificationsEnabled (findSettings (u_id usr) s) then 2 else 0)
    \<and> length (filter (isPushTo (u_id usr))
            (newEvents s (snd (processParticipant lr (p, Some usr) s)))) =
         (if enabledOrAbsent pushNotificationsEnabled (findSettings (u_id usr) s) then 2 else 0)"
proof -
  obtain res s' where run: "processParticipant lr (p, Some usr) s = (res, s')"
    by (cases "processParticipant lr (p, Some usr) s")
  note f = processParticipant_facts[OF run assms(2)]
  from f(3)[OF assms(1)] have ok: "res = Ok ()" by simp
  from f(2) ok assms(3,4) obtain b1 c1 b2 c2 where ev: "newEvents s s' =
      externalEvents (Some usr) (findSettings (u_id usr) s) (u_id usr) ''Meeting Reminder''
         (reminderMessage (m_title (lr_meeting lr)) (minutesBefore (lr_reminder lr))) b1 c1
      @ directEvents (findSettings (u_id usr) s) usr (m_title (lr_meeting lr))
                (minutesBefore (lr_reminder lr)) b2 c2" by auto
  show ?thesis
    using run unfolding ev
    by (simp add: ev count_email_external count_email_direct count_push_external count_push_direct)
qed

theorem enabled_channels_invoked_twice_witness:
  "dbHealthy store0 \<and> truthy (p_userId pAlice) \<and> findUser (u_id alice) store0 = Some alice
   \<and> enabledOrAbsent inAppNotificationsEnabled (findSettings (u_id alice) store0)
   \<and> length (filter (isEmailTo ''alice@example.com'')
        (newEvents store0 (snd (processParticipant loaded15 (pAlice, Some alice) store0)))) = 2
   \<and> length (filter (isPushTo ''u1'')
        (newEvents store0 (snd (processParticipant loaded15 (pAlice, Some alice) store0)))) = 2"
proof -
  have h1: "dbHealthy store0" by (rule store0_basic)
  have h2: "truthy (p_userId pAlice)" by (simp add: truthy_def loaded15_fields)
  have h3: "findUser (u_id alice) store0 = Some alice" by (simp add: findUser_def store_defs)
  have en: "enabledOrAbsent inAppNotificationsEnabled (findSettings (u_id alice) store0)"
    "enabledOrAbsent emailNotificationsEnabled (findSettings (u_id alice) store0)"
    "enabledOrAbsent pushNotificationsEnabled (findSettings (u_id alice) store0)"
    by (simp_all add: enabledOrAbsent_def findSettings_def store0_def)
  from enabled_channels_invoked_twice[OF h1 h2 h3 en(1), of loaded15] en h1 h2 h3
  show ?thesis by (simp add: loaded15_fields)
qed

text \<open>
  C3 as stated fails: a user with in-app enabled and email disabled is sent no email at
  all when the one due reminder is dispatched (and two pushes).
\<close>

theorem disabled_email_not_sent_twice:
  "enabledOrAbsent inAppNotificationsEnabled
       (findSettings ''u1'' (store0\<lparr>tbl_userSettings := [settingsFor ''u1'' False True True]\<rparr>))
   \<and> map r_id (map lr_reminder (findDueReminders 0
        (store0\<lparr>tbl_userSettings := [settingsFor ''u1'' False True True]\<rparr>))) = [''r1'']
   \<and> length (filter (isEmailTo ''alice@example.com'') (trace (snd (processReminders
        (store0\<lparr>tbl_userSettings := [settingsFor ''u1'' False True True]\<rparr>))))) = 0
   \<and> length (filter (isPushTo ''u1'') (trace (snd (processReminders
        (store0\<lparr>tbl_userSettings := [settingsFor ''u1'' False True True]\<rparr>))))) = 2"
  by code_simp

text \<open>
  C4 (amended). \<open>create\<close> looks the user's settings up itself: with no rejected store
  call it returns normally, and it appends one Notification row (unread, with the given
  user, type, title, message and meeting) exactly when the settings record is absent or
  has \<open>inAppNotificationsEnabled\<close>; otherwise it writes nothing and returns a placeholder
  with an empty id that is marked read.
\<close>

theorem create_writes_iff_in_app_enabled:
  assumes "dbHealthy s"
  shows "\<exists>n s'. create uid ty title msg rel s = (Ok n, s') \<and>
     (if enabledOrAbsent inAppNotificationsEnabled (findSettings uid s)
      then tbl_notification s' = tbl_notification s @ [n] \<and> n_userId n = uid \<and> n_type n = ty
           \<and> n_title n = title \<and> n_message n = msg \<and> relatedMeetingId n = rel \<and> \<not> isRead n
      else tbl_notification s' = tbl_notification s \<and> n_id n = [] \<and> isRead n)"
proof -
  obtain res s' where run: "create uid ty title msg rel s = (res, s')"
    by (cases "create uid ty title msg rel s")
  note f = create_facts[OF run]
  have tn: "tbl_notification s' = tbl_notification s @ newNotifications s s'"
    using f(1) by (auto simp: calm_def evolves_def newNotifications_def prefix_def)
  from f(3)[OF assms] obtain n where n: "res = Ok n"
    "(if enabledOrAbsent inAppNotificationsEnabled (findSettings uid s)
        then newNotifications s s' = [n] \<and> n_userId n = uid \<and> n_type n = ty \<and> n_title n = title
             \<and> n_message n = msg \<and> relatedMeetingId n = rel \<and> \<not> isRead n
        else newNotifications s s' = [] \<and> n_id n = [] \<and> isRead n)" by blast
  have "create uid ty title msg rel s = (Ok n, s')" using run n(1) by simp
  moreover have "(if enabledOrAbsent inAppNotificationsEnabled (findSettings uid s)
      then tbl_notification s' = tbl_notification s @ [n] \<and> n_userId n = uid \<and> n_type n = ty
           \<and> n_title n = title \<and> n_message n = msg \<and> relatedMeetingId n = rel \<and> \<not> isRead n
      else tbl_notification s' = tbl_notification s \<and> n_id n = [] \<and> isRead n)"
    using n(2) tn by (simp split: if_splits)
  ultimately show ?thesis by blast
qed

theorem create_writes_iff_in_app_enabled_witness:
  "dbHealthy store0 \<and> enabledOrAbsent inAppNotificationsEnabled (findSettings ''u1'' store0)
   \<and> (\<exists>n s'. create ''u1'' MEETING_REMINDER ''Meeting Reminder'' ''hello'' (Some ''m1'') store0 = (Ok n, s')
        \<and> tbl_notification s' = tbl_notification store0 @ [n] \<and> n_userId n = ''u1'' \<and> \<not> isRead n)"
proof -
  have e: "enabledOrAbsent inAppNotificationsEnabled (findSettings ''u1'' store0)"
    by (simp add: enabledOrAbsent_def findSettings_def store0_def)
  from create_writes_iff_in_app_enabled[OF store0_basic(1), of "''u1''" MEETING_REMINDER
      "''Meeting Reminder''" "''hello''" "Some ''m1''"] e store0_basic(1)
  show ?thesis by simp blast
qed

text \<open>
  C4 as stated fails: for a user whose settings have \<open>inAppNotificationsEnabled = false\<close>
  the call returns normally and the Notification table stays empty.
\<close>

theorem create_skips_write_when_in_app_disabled:
  "tbl_notification (snd (create ''u1'' MEETING_REMINDER ''Meeting Reminder'' ''hello'' (Some ''m1'')
        (store0\<lparr>tbl_userSettings := [settingsFor ''u1'' True True False]\<rparr>))) = []
   \<and> (case fst (create ''u1'' MEETING_REMINDER ''Meeting Reminder'' ''hello'' (Some ''m1'')
        (store0\<lparr>tbl_userSettings := [settingsFor ''u1'' True True False]\<rparr>)) of
        Ok n \<Rightarrow> n_id n = [] \<and> isRead n \<and> n_userId n = ''u1''
      | Throw e \<Rightarrow> False)"
  by code_simp

text \<open>
  C5. Whatever the email sender does (\<open>so\<close> is an arbitrary sequence of its outcomes,
  throwing or not) and with no rejected store call, processing a reminder marks it fully
  sent, every reminder email that threw is followed by its logged error, and every linked
  participant of the reminder still gets each enabled channel: the reminder email is
  invoked for them, the push sender is invoked for them, and their in-app Notification row
  is written.
\<close>

theorem email_failure_is_isolated:
  assumes "dbHealthy s"
    and "list_ex (\<lambda>r. r_id r = r_id (lr_reminder lr)) (tbl_meetingReminder s)"
    and "(p, Some usr) \<in> set (lr_participants lr)"
    and "truthy (p_userId p)"
  shows "markedSent (r_id (lr_reminder lr)) (processReminder lr (s\<lparr>smtpOutcomes := so\<rparr>))
    \<and> emailFailuresLogged (newEvents (s\<lparr>smtpOutcomes := so\<rparr>) (processReminder lr (s\<lparr>smtpOutcomes := so\<rparr>)))
    \<and> (enabledOrAbsent emailNotificationsEnabled (findSettings (u_id usr) s) \<longrightarrow>
          (\<exists>b. Invoke (SendMeetingReminder (u_email usr) (m_title (lr_meeting lr))
                  (minutesBefore (lr_reminder lr))) b
             \<in> set (newEvents (s\<lparr>smtpOutcomes := so\<rparr>) (processReminder lr (s\<lparr>smtpOutcomes := so\<rparr>)))))
    \<and> (enabledOrAbsent pushNotificationsEnabled (findSettings (u_id usr) s) \<longrightarrow>
          (\<exists>c. Invoke (SendToUser (u_id usr) ''Meeting Reminder''
                  (reminderMessage (m_title (lr_meeting lr)) (minutesBefore (lr_reminder lr)))) c
             \<in> set (newEvents (s\<lparr>smtpOutcomes := so\<rparr>) (processReminder lr (s\<lparr>smtpOutcomes := so\<rparr>)))))
    \<and> (enabledOrAbsent inAppNotificationsEnabled (findSettings (u_id usr) s) \<longrightarrow>
          (\<exists>n\<in>set (newNotifications (s\<lparr>smtpOutcomes := so\<rparr>) (processReminder lr (s\<lparr>smtpOutcomes := so\<rparr>))).
             n_userId n = u_id usr \<and> n_type n = MEETING_REMINDER
             \<and> relatedMeetingId n = Some (m_id (lr_meeting lr))))"
proof -
  let ?s0 = "s\<lparr>smtpOutcomes := so\<rparr>"
  have h0: "dbHealthy ?s0" using assms(1) by (simp add: dbHealthy_def)
  have ex0: "list_ex (\<lambda>r. r_id r = r_id (lr_reminder lr)) (tbl_meetingReminder ?s0)"
    using assms(2) by simp
  have fs: "findSettings (u_id usr) ?s0 = findSettings (u_id usr) s" by (simp add: findSettings_def)
  from processReminder_facts(6)[of lr ?s0] obtain res s1 tail where
    r: "processParticipants lr (lr_participants lr) ?s0 = (res, s1)"
    and ev: "newEvents ?s0 (processReminder lr ?s0) = newEvents ?s0 s1 @ tail"
    and nn: "newNotifications ?s0 (processReminder lr ?s0) = newNotifications ?s0 s1" by blast
  note d = processParticipants_deliver[OF h0 r assms(3,4), unfolded fs]
  have m: "markedSent (r_id (lr_reminder lr)) (processReminder lr ?s0)"
    using processReminder_facts(5)[OF h0 ex0] .
  have l: "emailFailuresLogged (newEvents ?s0 (processReminder lr ?s0))"
    by (rule processReminder_logged)
  show ?thesis using m l d unfolding ev nn by auto
qed

theorem email_failure_is_isolated_witness:
  "dbHealthy store0
   \<and> list_ex (\<lambda>r. r_id r = r_id (lr_reminder loaded15)) (tbl_meetingReminder store0)
   \<and> (pBob, Some bob) \<in> set (lr_participants loaded15)
   \<and> truthy (p_userId pBob)
   \<and> Invoke (SendMeetingReminder ''alice@example.com'' ''Standup'' 15) True
        \<in> set (newEvents (store0\<lparr>smtpOutcomes := [passing, failing]\<rparr>)
                 (processReminder loaded15 (store0\<lparr>smtpOutcomes := [passing, failing]\<rparr>)))
   \<and> markedSent ''r1'' (processReminder loaded15 (store0\<lparr>smtpOutcomes := [passing, failing]\<rparr>))
   \<and> (\<exists>b. Invoke (SendMeetingReminder ''bob@example.com'' ''Standup'' 15) b
        \<in> set (newEvents (store0\<lparr>smtpOutcomes := [passing, failing]\<rparr>)
                 (processReminder loaded15 (store0\<lparr>smtpOutcomes := [passing, failing]\<rparr>))))
   \<and> (\<exists>c. Invoke (SendToUser ''u2'' ''Meeting Reminder'' (reminderMessage ''Standup'' 15)) c
        \<in> set (newEvents (store0\<lparr>smtpOutcomes := [passing, failing]\<rparr>)
                 (processReminder loaded15 (store0\<lparr>smtpOutcomes := [passing, failing]\<rparr>))))"
proof -
  have h1: "dbHealthy store0" by (rule store0_basic)
  have h2: "list_ex (\<lambda>r. r_id r = r_id (lr_reminder loaded15)) (tbl_meetingReminder store0)"
    by (simp add: store_defs)
  have h3: "(pBob, Some bob) \<in> set (lr_participants loaded15)" by (simp add: loaded15_fields)
  have h4: "truthy (p_userId pBob)" by (simp add: truthy_def loaded15_fields)
  have en: "enabledOrAbsent emailNotificationsEnabled (findSettings (u_id bob) store0)"
    "enabledOrAbsent pushNotificationsEnabled (findSettings (u_id bob) store0)"
    by (simp_all add: enabledOrAbsent_def findSettings_def store0_def)
  have a: "Invoke (SendMeetingReminder ''alice@example.com'' ''Standup'' 15) True
        \<in> set (newEvents (store0\<lparr>smtpOutcomes := [passing, failing]\<rparr>)
                 (processReminder loaded15 (store0\<lparr>smtpOutcomes := [passing, failing]\<rparr>)))"
    by code_simp
  from email_failure_is_isolated[OF h1 h2 h3 h4, where so = "[passing, failing]"] en a h1 h2 h3 h4
  show ?thesis by (simp add: loaded15_fields)
qed

text \<open>
  C6. When the selection query succeeds the tick returns normally, and every reminder of
  the selected batch has been attempted: at the end of the tick it is either marked sent
  or its failure has been logged under its id. An exception in one reminder therefore
  neither stops the later reminders nor escapes the tick; and an exception that leaves the
  participant loop of a reminder is caught and logged under that reminder's id.
\<close>

theorem batch_continues_after_failure:
  assumes "\<not> fst (dbCall s)"
  shows "fst (processReminders s) = Ok ()
    \<and> (\<forall>lr\<in>set (findDueReminders (wallclock s) s).
          markedSent (r_id (lr_reminder lr)) (snd (processReminders s))
          \<or> failedToProcess (r_id (lr_reminder lr)) \<in> set (newEvents s (snd (processReminders s))))
    \<and> (fst (processParticipants lr0 (lr_participants lr0) s0) = Throw e \<longrightarrow>
          failedToProcess (r_id (lr_reminder lr0)) \<in> set (newEvents s0 (processReminder lr0 s0)))"
proof -
  obtain res s' where run: "processReminders s = (res, s')" by (cases "processReminders s")
  have ok: "res = Ok ()" using processReminders_facts(2)[OF run assms] .
  with run have r: "processReminders s = (Ok (), s')" by simp
  let ?rs = "findDueReminders (wallclock s) s"
  from r obtain s1 where a: "calm s s1" "calm (processBatch ?rs s1) s'"
    "newEvents s s' = newEvents s1 (processBatch ?rs s1) @ newEvents (processBatch ?rs s1) s'"
    by (rule processReminders_split)
  have "\<forall>lr\<in>set ?rs. markedSent (r_id (lr_reminder lr)) s'
          \<or> failedToProcess (r_id (lr_reminder lr)) \<in> set (newEvents s s')"
  proof
    fix lr assume "lr \<in> set ?rs"
    from processBatch_attempts[OF this, of s1]
    show "markedSent (r_id (lr_reminder lr)) s'
          \<or> failedToProcess (r_id (lr_reminder lr)) \<in> set (newEvents s s')"
      using markedSent_calm[OF a(2)] a(3) by auto
  qed
  then show ?thesis using run ok processReminder_logs_throw[of lr0 s0 e] by simp
qed

theorem batch_continues_after_failure_witness:
  "\<not> fst (dbCall (store0\<lparr>wallclock := 600000, dbOutcomes := [passing, failing]\<rparr>))
   \<and> map r_id (map lr_reminder (findDueReminders
        (wallclock (store0\<lparr>wallclock := 600000, dbOutcomes := [passing, failing]\<rparr>))
        (store0\<lparr>wallclock := 600000, dbOutcomes := [passing, failing]\<rparr>))) = [''r1'', ''r2'']
   \<and> fst (processReminders (store0\<lparr>wallclock := 600000, dbOutcomes := [passing, failing]\<rparr>)) = Ok ()
   \<and> failedToProcess ''r1'' \<in> set (newEvents (store0\<lparr>wallclock := 600000, dbOutcomes := [passing, failing]\<rparr>)
        (snd (processReminders (store0\<lparr>wallclock := 600000, dbOutcomes := [passing, failing]\<rparr>))))
   \<and> markedSent ''r2'' (snd (processReminders (store0\<lparr>wallclock := 600000, dbOutcomes := [passing, failing]\<rparr>)))
   \<and> fst (processParticipants loaded15 (lr_participants loaded15)
        (snd (dbCall (store0\<lparr>wallclock := 600000, dbOutcomes := [passing, failing]\<rparr>))))
       = Throw ''userSettings.findUnique''
   \<and> failedToProcess (r_id (lr_reminder loaded15)) \<in> set (newEvents
        (snd (dbCall (store0\<lparr>wallclock := 600000, dbOutcomes := [passing, failing]\<rparr>)))
        (processReminder loaded15
           (snd (dbCall (store0\<lparr>wallclock := 600000, dbOutcomes := [passing, failing]\<rparr>)))))"
proof -
  let ?s = "store0\<lparr>wallclock := 600000, dbOutcomes := [passing, failing]\<rparr>"
  have h: "\<not> fst (dbCall ?s)" by code_simp
  have b: "map r_id (map lr_reminder (findDueReminders (wallclock ?s) ?s)) = [''r1'', ''r2'']"
    by code_simp
  have f: "failedToProcess ''r1'' \<in> set (newEvents ?s (snd (processReminders ?s)))" by code_simp
  have m: "markedSent ''r2'' (snd (processReminders ?s))" by code_simp
  have p: "fst (processParticipants loaded15 (lr_participants loaded15) (snd (dbCall ?s)))
      = Throw ''userSettings.findUnique''" by code_simp
  note t = batch_continues_after_failure[OF h, where ?lr0.0 = loaded15
      and ?s0.0 = "snd (dbCall ?s)" and e = "''userSettings.findUnique''"]
  from t p have l: "failedToProcess (r_id (lr_reminder loaded15)) \<in> set (newEvents
        (snd (dbCall ?s)) (processReminder loaded15 (snd (dbCall ?s))))" by blast
  from t h b f m p l show ?thesis by blast
qed

text \<open>
  C7 (amended). With no rejected store call, regenerating the reminders of a meeting
  deletes all its Reminder rows and inserts one pending row per element of the lead-time
  list, in order, with \<open>scheduledFor = startTime - leadTime\<close> minutes; rows of other
  meetings are untouched. Afterwards the number of rows of a (meeting, lead time) pair is
  the number of times the lead time occurs in the list: exactly one per configured lead
  time and none for any other when the list has no repeated element. Regenerating again
  gives the same rows up to the generated columns (id, createdAt).
\<close>

theorem regenerate_one_row_per_list_entry:
  assumes "dbHealthy s"
  shows "\<exists>s' s''. regenerate mid start ls s = (Ok (), s')
    \<and> filter (\<lambda>r. r_meetingId r \<noteq> mid) (tbl_meetingReminder s')
        = filter (\<lambda>r. r_meetingId r \<noteq> mid) (tbl_meetingReminder s)
    \<and> map reminderContent (remindersOf mid s')
        = map (\<lambda>l. (mid, l, start - l * 60 * 1000, None, False, False, False)) ls
    \<and> length (rowsFor mid lead s') = count_list ls lead
    \<and> (distinct ls \<longrightarrow> length (rowsFor mid lead s') = (if lead \<in> set ls then 1 else 0))
    \<and> regenerate mid start ls s' = (Ok (), s'')
    \<and> map reminderContent (tbl_meetingReminder s'') = map reminderContent (tbl_meetingReminder s')"
proof -
  from regenerate_facts[OF assms, of mid start ls] obtain s' added where
    r1: "regenerate mid start ls s = (Ok (), s')" and h1: "dbHealthy s'"
    and rows1: "tbl_meetingReminder s' = filter (\<lambda>r. r_meetingId r \<noteq> mid) (tbl_meetingReminder s) @ added"
    and c1: "map reminderContent added =
          map (\<lambda>l. (mid, l, start - l * 60 * 1000, None, False, False, False)) ls" by blast
  from regenerate_facts[OF h1, of mid start ls] obtain s'' added' where
    r2: "regenerate mid start ls s' = (Ok (), s'')"
    and rows2: "tbl_meetingReminder s'' = filter (\<lambda>r. r_meetingId r \<noteq> mid) (tbl_meetingReminder s') @ added'"
    and c2: "map reminderContent added' =
          map (\<lambda>l. (mid, l, start - l * 60 * 1000, None, False, False, False)) ls" by blast
  note cm = content_meeting[where f = "\<lambda>l. start - l * 60 * 1000", OF c1]
  have own: "\<forall>r\<in>set added. r_meetingId r = mid"
    using cm by (simp add: filter_id_conv)
  note sp = rowsFor_split[OF rows1 own]
  have cnt: "length (rowsFor mid lead s') = count_list ls lead"
    using sp(2)[of lead] cm length_filter_count[of minutesBefore lead added] by simp
  have keep: "filter (\<lambda>r. r_meetingId r \<noteq> mid) (tbl_meetingReminder s')
      = filter (\<lambda>r. r_meetingId r \<noteq> mid) (tbl_meetingReminder s)"
    using sp(3) by simp
  have idem: "map reminderContent (tbl_meetingReminder s'') = map reminderContent (tbl_meetingReminder s')"
    unfolding rows2 keep unfolding rows1 by (simp add: c1 c2)
  have cont: "map reminderContent (remindersOf mid s')
        = map (\<lambda>l. (mid, l, start - l * 60 * 1000, None, False, False, False)) ls"
    using sp(1) c1 by simp
  have dist: "distinct ls \<longrightarrow> length (rowsFor mid lead s') = (if lead \<in> set ls then 1 else 0)"
    using cnt distinct_count_list[of ls lead] by simp
  from r1 keep cont cnt dist r2 idem show ?thesis by blast
qed

theorem regenerate_one_row_per_list_entry_witness:
  "dbHealthy store0 \<and> distinct [15, 5 :: int]
   \<and> (\<exists>s'. regenerate ''m1'' 960000 [15, 5] store0 = (Ok (), s')
        \<and> map reminderContent (remindersOf ''m1'' s')
            = [(''m1'', 15, 60000, None, False, False, False),
               (''m1'', 5, 660000, None, False, False, False)]
        \<and> length (rowsFor ''m1'' 15 s') = 1)"
proof -
  have d: "distinct [15, 5 :: int]" by simp
  from regenerate_one_row_per_list_entry[OF store0_basic(1), of "''m1''" 960000 "[15, 5]" 15]
  obtain s' where r: "regenerate ''m1'' 960000 [15, 5] store0 = (Ok (), s')"
    and c: "map reminderContent (remindersOf ''m1'' s')
        = map (\<lambda>l. (''m1'', l, 960000 - l * 60 * 1000, None, False, False, False)) [15, 5]"
    and n: "distinct [15, 5 :: int] \<longrightarrow>
        length (rowsFor ''m1'' 15 s') = (if (15 :: int) \<in> set [15, 5] then 1 else 0)"
    by blast
  from c have c': "map reminderContent (remindersOf ''m1'' s')
            = [(''m1'', 15, 60000, None, False, False, False),
               (''m1'', 5, 660000, None, False, False, False)]" by simp
  from n d have n': "length (rowsFor ''m1'' 15 s') = 1" by simp
  show ?thesis
  proof (intro conjI exI[of _ s'])
    show "dbHealthy store0" by (rule store0_basic(1))
    show "distinct [15, 5 :: int]" by (rule d)
    show "regenerate ''m1'' 960000 [15, 5] store0 = (Ok (), s')" by (rule r)
    show "map reminderContent (remindersOf ''m1'' s')
            = [(''m1'', 15, 60000, None, False, False, False),
               (''m1'', 5, 660000, None, False, False, False)]" by (rule c')
    show "length (rowsFor ''m1'' 15 s') = 1" by (rule n')
  qed
qed

text \<open>
  C7 as stated fails: a lead-time list that repeats a value, which the input validation
  accepts and no unique index forbids, leaves two rows for the same (meeting, lead time)
  pair.
\<close>

theorem duplicate_lead_times_give_duplicate_rows:
  "fst (regenerate ''m1'' 960000 [15, 15] store0) = Ok ()
   \<and> length (rowsFor ''m1'' 15 (snd (regenerate ''m1'' 960000 [15, 15] store0))) = 2"
  by code_simp

text \<open>
  C8. After a successful \<open>cancel\<close> of a meeting the store holds no Reminder row of that
  meeting, the selector run on the resulting store at any time \<open>now\<close> returns no reminder
  of the meeting, and so does the selector on any later store \<open>s''\<close> in which the Meeting
  table is as \<open>cancel\<close> left it, whatever its reminder rows.
\<close>

theorem cancel_clears_reminders:
  assumes "cancel mid uid s = (Ok m, s')"
  shows "remindersOf mid s' = []
    \<and> (\<forall>lr\<in>set (findDueReminders now s'). r_meetingId (lr_reminder lr) \<noteq> mid)
    \<and> (tbl_meeting s'' = tbl_meeting s' \<longrightarrow>
         (\<forall>lr\<in>set (findDueReminders now s''). r_meetingId (lr_reminder lr) \<noteq> mid))"
proof (intro conjI ballI impI)
  note c = cancel_Ok[OF assms]
  show "remindersOf mid s' = []" by (simp add: remindersOf_def c(1))
  { fix lr assume "lr \<in> set (findDueReminders now s')"
    from findDue_member(3)[OF this] show "r_meetingId (lr_reminder lr) \<noteq> mid"
      by (simp add: c(1)) }
  { fix lr assume t: "tbl_meeting s'' = tbl_meeting s'" and "lr \<in> set (findDueReminders now s'')"
    from findDue_member(2)[OF this(2)] obtain m' where
      o: "owningMeeting s'' (lr_reminder lr) = Some m'" and nc: "\<not> isCancelled m'"
      by (auto simp: isDue_spec)
    show "r_meetingId (lr_reminder lr) \<noteq> mid"
    proof
      assume "r_meetingId (lr_reminder lr) = mid"
      with o t have "find (\<lambda>m. m_id m = mid) (tbl_meeting s') = Some m'"
        by (simp add: owningMeeting_def findMeeting_def)
      from find_cancelled[OF this[unfolded c(2)]] nc show False by simp
    qed }
qed

theorem cancel_clears_reminders_witness:
  "cancel ''m1'' ''u1'' store0 = (Ok (standup\<lparr>isCancelled := True\<rparr>), snd (cancel ''m1'' ''u1'' store0))
   \<and> remindersOf ''m1'' store0 = [rem15, rem5]
   \<and> loaded15 \<in> set (findDueReminders 0 store0)
   \<and> remindersOf ''m1'' (snd (cancel ''m1'' ''u1'' store0)) = []
   \<and> findDueReminders 0 (snd (cancel ''m1'' ''u1'' store0)) = []"
proof -
  have f: "fst (cancel ''m1'' ''u1'' store0) = Ok (standup\<lparr>isCancelled := True\<rparr>)" by code_simp
  have h: "cancel ''m1'' ''u1'' store0 =
      (Ok (standup\<lparr>isCancelled := True\<rparr>), snd (cancel ''m1'' ''u1'' store0))"
    using f by (cases "cancel ''m1'' ''u1'' store0") simp
  have b: "remindersOf ''m1'' store0 = [rem15, rem5]" by (simp add: remindersOf_def store_defs)
  have d: "loaded15 \<in> set (findDueReminders 0 store0)" by (simp add: findDue_store0)
  have e: "findDueReminders 0 (snd (cancel ''m1'' ''u1'' store0)) = []"
  proof (cases "findDueReminders 0 (snd (cancel ''m1'' ''u1'' store0))")
    case Nil
    then show ?thesis .
  next
    case (Cons lr rest)
    then have m: "lr \<in> set (findDueReminders 0 (snd (cancel ''m1'' ''u1'' store0)))" by simp
    from findDue_member(3)[OF m] have "r_meetingId (lr_reminder lr) = ''m1''"
      unfolding cancel_Ok(1)[OF h] by (auto simp: store_defs)
    with cancel_clears_reminders[OF h, of 0] m show ?thesis by blast
  qed
  from cancel_clears_reminders[OF h, of 0] h b d e show ?thesis by blast
qed

text \<open>
  C9. For a user whose settings record exists with \<open>pushNotificationsEnabled = false\<close>,
  a tick invokes the push sender for that user in no case (whatever fails), while for a
  linked participant with that user, and no rejected store call, reminder emails are sent
  exactly when the email flag is set and an in-app Notification is written exactly when the
  in-app flag is set.
\<close>

theorem push_disabled_user_never_pushed:
  assumes "findSettings uid s = Some st" and "\<not> pushNotificationsEnabled st"
  shows "(\<forall>e\<in>set (newEvents s (snd (processReminders s))). \<not> isPushTo uid e)
    \<and> (dbHealthy s \<longrightarrow> truthy (p_userId p) \<longrightarrow> u_id usr = uid \<longrightarrow>
         (filter (isEmailTo (u_email usr)) (newEvents s (snd (processParticipant lr (p, Some usr) s))) \<noteq> []
            \<longleftrightarrow> emailNotificationsEnabled st)
         \<and> (newNotifications s (snd (processParticipant lr (p, Some usr) s)) \<noteq> []
            \<longleftrightarrow> inAppNotificationsEnabled st))"
proof (intro conjI ballI impI)
  fix e assume e: "e \<in> set (newEvents s (snd (processReminders s)))"
  obtain res s' where run: "processReminders s = (res, s')" by (cases "processReminders s")
  from processReminders_nopush[OF run assms] e run show "\<not> isPushTo uid e" by simp
next
  assume h: "dbHealthy s" and l: "truthy (p_userId p)" and u: "u_id usr = uid"
  obtain res s' where run: "processParticipant lr (p, Some usr) s = (res, s')"
    by (cases "processParticipant lr (p, Some usr) s")
  note f = processParticipant_facts[OF run l]
  have fs: "findSettings (u_id usr) s = Some st" using assms(1) u by simp
  from f(3)[OF h] have ok: "res = Ok ()" by simp
  from f(2) ok obtain b1 c1 b2 c2 where ev: "newEvents s s' =
            (if enabledOrAbsent inAppNotificationsEnabled (findSettings (u_id usr) s)
             then externalEvents (findUser (u_id usr) s) (findSettings (u_id usr) s) (u_id usr)
                    ''Meeting Reminder''
                    (reminderMessage (m_title (lr_meeting lr)) (minutesBefore (lr_reminder lr))) b1 c1
             else [])
            @ directEvents (findSettings (u_id usr) s) usr (m_title (lr_meeting lr))
                (minutesBefore (lr_reminder lr)) b2 c2" by auto
  show "(filter (isEmailTo (u_email usr)) (newEvents s (snd (processParticipant lr (p, Some usr) s))) \<noteq> [])
       = emailNotificationsEnabled st"
    using run unfolding ev
    by (auto simp: ev fs enabledOrAbsent_def email_direct dest: email_external_Some)
  show "(newNotifications s (snd (processParticipant lr (p, Some usr) s)) \<noteq> [])
       = inAppNotificationsEnabled st"
    using f(3)[OF h] run fs by (auto simp: enabledOrAbsent_def split: if_splits)
qed

theorem push_disabled_user_never_pushed_witness:
  "findSettings ''u1'' (store0\<lparr>tbl_userSettings := [settingsFor ''u1'' True False True]\<rparr>)
      = Some (settingsFor ''u1'' True False True)
   \<and> \<not> pushNotificationsEnabled (settingsFor ''u1'' True False True)
   \<and> Invoke (SendMeetingReminder ''alice@example.com'' ''Standup'' 15) False
        \<in> set (newEvents (store0\<lparr>tbl_userSettings := [settingsFor ''u1'' True False True]\<rparr>)
             (snd (processReminders (store0\<lparr>tbl_userSettings := [settingsFor ''u1'' True False True]\<rparr>))))
   \<and> \<not> isPushTo ''u1'' (Invoke (SendMeetingReminder ''alice@example.com'' ''Standup'' 15) False)
   \<and> dbHealthy (store0\<lparr>tbl_userSettings := [settingsFor ''u1'' True False True]\<rparr>)
   \<and> truthy (p_userId pAlice) \<and> u_id alice = ''u1''
   \<and> filter (isEmailTo (u_email alice))
        (newEvents (store0\<lparr>tbl_userSettings := [settingsFor ''u1'' True False True]\<rparr>)
           (snd (processParticipant loaded15 (pAlice, Some alice)
              (store0\<lparr>tbl_userSettings := [settingsFor ''u1'' True False True]\<rparr>)))) \<noteq> []
   \<and> newNotifications (store0\<lparr>tbl_userSettings := [settingsFor ''u1'' True False True]\<rparr>)
        (snd (processParticipant loaded15 (pAlice, Some alice)
              (store0\<lparr>tbl_userSettings := [settingsFor ''u1'' True False True]\<rparr>))) \<noteq> []"
proof -
  let ?s = "store0\<lparr>tbl_userSettings := [settingsFor ''u1'' True False True]\<rparr>"
  have h1: "findSettings ''u1'' ?s = Some (settingsFor ''u1'' True False True)"
    by (simp add: findSettings_def settingsFor_def)
  have h2: "\<not> pushNotificationsEnabled (settingsFor ''u1'' True False True)"
    and en: "emailNotificationsEnabled (settingsFor ''u1'' True False True)"
      "inAppNotificationsEnabled (settingsFor ''u1'' True False True)"
    by (simp_all add: settingsFor_def)
  have m: "Invoke (SendMeetingReminder ''alice@example.com'' ''Standup'' 15) False
        \<in> set (newEvents ?s (snd (processReminders ?s)))" by code_simp
  have h3: "dbHealthy ?s" by (simp add: dbHealthy_def store0_def)
  have h4: "truthy (p_userId pAlice)" "u_id alice = ''u1''"
    by (simp_all add: truthy_def loaded15_fields)
  note t = push_disabled_user_never_pushed[OF h1 h2, of pAlice alice loaded15]
  from t m have "\<not> isPushTo ''u1'' (Invoke (SendMeetingReminder ''alice@example.com'' ''Standup'' 15) False)"
    by blast
  moreover from t h3 h4 en have "filter (isEmailTo (u_email alice))
        (newEvents ?s (snd (processParticipant loaded15 (pAlice, Some alice) ?s))) \<noteq> []
     \<and> newNotifications ?s (snd (processParticipant loaded15 (pAlice, Some alice) ?s)) \<noteq> []"
    by blast
  ultimately show ?thesis using h1 h2 m h3 h4 by blast
qed

text \<open>
  C10. A participant with no linked user account (no \<open>userId\<close>, or no user row loaded
  for it) is skipped by the dispatch loop: processing that participant returns normally
  and leaves the whole state unchanged, so no Notification row is written and no sender
  is invoked on their behalf; and a whole tick leaves the Participant table as it was.
\<close>

theorem unlinked_participant_skipped:
  assumes "p_userId p = None \<or> u = None"
  shows "processParticipant lr (p, u) s = (Ok (), s)
    \<and> tbl_meetingParticipant (snd (processReminders s0)) = tbl_meetingParticipant s0"
proof -
  from assms have "\<not> truthy (p_userId p) \<or> u = None" by (auto simp: truthy_def)
  then have "processParticipant lr (p, u) s = (Ok (), s)" by (rule processParticipant_skip)
  moreover have "evolves s0 (snd (processReminders s0))"
    using processReminders_facts(1)[of s0] by (cases "processReminders s0") simp
  then have "tbl_meetingParticipant (snd (processReminders s0)) = tbl_meetingParticipant s0"
    by (simp add: evolves_def)
  ultimately show ?thesis by simp
qed

theorem unlinked_participant_skipped_witness:
  "p_userId pCarol = None
   \<and> processParticipant loaded15 (pCarol, None) store0 = (Ok (), store0)
   \<and> tbl_meetingParticipant (snd (processReminders store0)) = [pAlice, pBob, pCarol]"
proof -
  have h: "p_userId pCarol = None \<or> (None :: user option) = None" by simp
  have t: "tbl_meetingParticipant store0 = [pAlice, pBob, pCarol]" by (simp add: store0_def)
  from unlinked_participant_skipped[OF h, of loaded15 store0 store0] t
  show ?thesis by (simp add: pCarol_def)
qed

end
